theory Spec2Isabelle
  imports Complex_Main
begin

section \<open>The simulation engines of pymarket/algorithms.py\<close>

text \<open>
  The two functions \<^verbatim>\<open>alg_01\<close> (Rebalance Engine) and \<^verbatim>\<open>alg_02\<close> (Margin Engine) walk a
  price series from its last position down to position 0, keep a running maximum and a
  running minimum, and consume a list of trigger percentages from the front.

  Numbers. The source computes in IEEE double precision (numpy \<^verbatim>\<open>float64\<close>). The loops
  of the model compute in \<^typ>\<open>real\<close>: rounding is idealised away, and a quotient of
  prices is only meaningful where its divisor is not zero (numpy yields inf or nan there,
  HOL yields 0). The statements below either do not depend on the value of a quotient or
  assume the divisors that matter to be positive. Copying and comparing prices is exact
  in doubles, so the running extrema of the model are those of the source. The drawdown
  is not: where a statement is about its value as the source computes it, the drawdown
  is computed in double precision from the extrema (see the subsection on double
  precision). A comparison of the drawdown with a trigger can differ between the two
  arithmetics where the exact values are equal or nearly so; the concrete runs below
  stay away from such ties.

  Series. A pandas Series is a \<^typ>\<open>real list\<close> read by position; position 0 holds the most
  recent price. Inside the loops every read is at a position below the length, so
  \<^term>\<open>xs ! i\<close> is in range whenever the model evaluates it on a validated input.

  Exceptions. \<^verbatim>\<open>assert\<close> raises \<^verbatim>\<open>AssertionError\<close> (the specification calls it
  InvalidParameter); \<^verbatim>\<open>xs[0]\<close> on an empty Python list raises \<^verbatim>\<open>IndexError\<close>; reading
  position \<^verbatim>\<open>s-1\<close> of an empty Series raises a \<^verbatim>\<open>KeyError\<close> or an \<^verbatim>\<open>IndexError\<close> depending on
  its index, both of them a \<^verbatim>\<open>LookupError\<close>. The final division of \<^verbatim>\<open>alg_01\<close> by an initial
  portfolio value of zero raises \<^verbatim>\<open>ZeroDivisionError\<close> when the series has a single price
  (both operands are Python floats); after at least one iteration the dividend is a numpy
  float and the call returns inf or nan, which is no real number: that outcome is
  \<open>NonFinite\<close>.
\<close>

datatype error = AssertionError | IndexError | LookupError | ZeroDivisionError | NonFinite

type_synonym series = "real list"

text \<open>\<^verbatim>\<open>all([0 < x and x < 100 for x in xs])\<close>\<close>

definition valid_perc :: "real list \<Rightarrow> bool" where
  "valid_perc xs = list_all (\<lambda>x. 0 < x \<and> x < 100) xs"

subsection \<open>State of the loops\<close>

text \<open>
  The local variables \<^verbatim>\<open>max\<close>, \<^verbatim>\<open>min\<close> and \<^verbatim>\<open>current_decrease\<close> are common to both
  functions (\<^verbatim>\<open>max\<close> and \<^verbatim>\<open>min\<close> are renamed, the names being HOL constants). Each engine
  extends them with the locals it mutates.
\<close>

record walker =
  max_price :: real
  min_price :: real
  current_decrease :: real

record rebalance = walker +
  stock_val :: real
  bond_val :: real
  decr_perc :: "real list"
  sell_perc :: "real list"

record margin_state = walker +
  current_increase :: real
  m_stock_val :: real
  margin :: real
  decrease_percentages :: "real list"
  increase_percentages :: "real list"

subsection \<open>alg\_01\<close>

text \<open>
  The inner \<^verbatim>\<open>while current_decrease > decr_perc[0]\<close> loop (lines 96 to 101). The condition
  reads \<^verbatim>\<open>decr_perc[0]\<close> without testing for emptiness, so it raises once the list is empty.
  The result is the state when the loop is left, and the exception if it was left by one.
\<close>

function fire_01 :: "rebalance \<Rightarrow> rebalance \<times> error option" where
  "fire_01 st =
     (case decr_perc st of
        [] \<Rightarrow> (st, Some IndexError)
      | d # ds \<Rightarrow>
          if current_decrease st > d then
            (case sell_perc st of
               [] \<Rightarrow> (st, Some IndexError)
             | p # ps \<Rightarrow>
                 let sell_value = bond_val st * p in
                 fire_01 (st\<lparr>bond_val := bond_val st - sell_value,
                              stock_val := stock_val st + sell_value,
                              decr_perc := ds,
                              sell_perc := ps\<rparr>))
          else (st, None))"
  by pat_completeness auto
termination
  by (relation "measure (\<lambda>st. length (decr_perc st))") auto

declare fire_01.simps [simp del]

text \<open>One iteration of the \<^verbatim>\<open>for\<close> loop (lines 78 to 101) at position \<open>i\<close>.\<close>

definition step_01 :: "series \<Rightarrow> series \<Rightarrow> real \<Rightarrow> nat \<Rightarrow> rebalance \<Rightarrow> rebalance \<times> error option" where
  "step_01 stock_series bond_series monthly_addn i st0 =
     (let stock_change = stock_series ! i / stock_series ! (i + 1);
          st1 = st0\<lparr>stock_val := stock_val st0 * stock_change\<rparr>;
          bond_change = bond_series ! i / bond_series ! (i + 1);
          st2 = st1\<lparr>bond_val := bond_val st1 * bond_change\<rparr>;
          st3 = (if i mod 25 = 0 then st2\<lparr>bond_val := bond_val st2 + monthly_addn\<rparr> else st2);
          st4 = (if stock_series ! i > max_price st3 then st3\<lparr>max_price := stock_series ! i\<rparr> else st3)
      in if stock_series ! i < min_price st4 then
           fire_01 (st4\<lparr>min_price := stock_series ! i,
                        current_decrease := 1 - stock_series ! i / max_price st4\<rparr>)
         else (st4, None))"

text \<open>
  The \<^verbatim>\<open>for\<close> loop over the positions \<open>is\<close>. The first component lists the state at the end
  of every iteration that was entered (for an iteration left by an exception, the state
  when it was raised).
\<close>

fun loop_01 :: "series \<Rightarrow> series \<Rightarrow> real \<Rightarrow> nat list \<Rightarrow> rebalance \<Rightarrow> rebalance list \<times> error option" where
  "loop_01 stock_series bond_series monthly_addn [] st = ([], None)"
| "loop_01 stock_series bond_series monthly_addn (i # is) st =
     (case step_01 stock_series bond_series monthly_addn i st of
        (st', Some e) \<Rightarrow> ([st'], Some e)
      | (st', None) \<Rightarrow>
          (case loop_01 stock_series bond_series monthly_addn is st' of
             (tr, r) \<Rightarrow> (st' # tr, r)))"

text \<open>
  The whole call. The first component is the sequence of loop states, starting with the
  initial one; it is empty when the call fails before the initialisation. The second
  component is what the caller sees: the exception (or the non-finite result of a
  division by zero) or \<^verbatim>\<open>port_change\<close>.
  \<^verbatim>\<open>range(s-2, -1, -1)\<close> is \<^term>\<open>rev [0..<s - 1]\<close>.
\<close>

definition alg_01_run ::
  "series \<Rightarrow> series \<Rightarrow> real \<Rightarrow> real \<Rightarrow> real list \<Rightarrow> real list \<Rightarrow> real
     \<Rightarrow> rebalance list \<times> (error + real)" where
  "alg_01_run stock_series bond_series stock_val0 bond_val0 decr sell monthly_addn =
     (if \<not> valid_perc decr then ([], Inl AssertionError)
      else if \<not> valid_perc sell then ([], Inl AssertionError)
      else if length decr \<noteq> length sell then ([], Inl AssertionError)
      else if length stock_series \<noteq> length bond_series then ([], Inl AssertionError)
      else
        let s = length stock_series in
        if s = 0 then ([], Inl LookupError)
        else
          let st0 = \<lparr>max_price = stock_series ! (s - 1),
                     min_price = stock_series ! (s - 1),
                     current_decrease = 0,
                     stock_val = stock_val0,
                     bond_val = bond_val0,
                     decr_perc = map (\<lambda>x. x / 100) decr,
                     sell_perc = map (\<lambda>x. x / 100) sell\<rparr>;
              init_port_val = stock_val0 + bond_val0
          in case loop_01 stock_series bond_series monthly_addn (rev [0..<s - 1]) st0 of
               (tr, Some e) \<Rightarrow> (st0 # tr, Inl e)
             | (tr, None) \<Rightarrow>
                 let fin = last (st0 # tr);
                     fin_port_val = stock_val fin + bond_val fin
                 in if init_port_val = 0
                    then (st0 # tr, Inl (if s = 1 then ZeroDivisionError else NonFinite))
                    else (st0 # tr, Inr (fin_port_val / init_port_val - 1)))"

definition alg_01 ::
  "series \<Rightarrow> series \<Rightarrow> real \<Rightarrow> real \<Rightarrow> real list \<Rightarrow> real list \<Rightarrow> real \<Rightarrow> error + real" where
  "alg_01 stock_series bond_series stock_val0 bond_val0 decr sell monthly_addn =
     snd (alg_01_run stock_series bond_series stock_val0 bond_val0 decr sell monthly_addn)"

subsection \<open>alg\_02\<close>

text \<open>
  The inner \<^verbatim>\<open>while current_decrease > decrease_percentages[0]\<close> loop (lines 203 to 206).
  Only \<^verbatim>\<open>decrease_percentages\<close> is popped; \<^verbatim>\<open>decrease_buys\<close> is read at position 0 and
  never changed, so it is a parameter and not part of the state.
\<close>

function fire_02 :: "real list \<Rightarrow> margin_state \<Rightarrow> margin_state \<times> error option" where
  "fire_02 decrease_buys st =
     (case decrease_percentages st of
        [] \<Rightarrow> (st, Some IndexError)
      | d # ds \<Rightarrow>
          if current_decrease st > d then
            (case decrease_buys of
               [] \<Rightarrow> (st, Some IndexError)
             | b # _ \<Rightarrow>
                 let m = m_stock_val st + b * margin st / 100 in
                 fire_02 decrease_buys
                   (st\<lparr>m_stock_val := m,
                       margin := margin st - m,
                       decrease_percentages := ds\<rparr>))
          else (st, None))"
  by pat_completeness auto
termination
  by (relation "measure (\<lambda>(bs, st). length (decrease_percentages st))") auto

declare fire_02.simps [simp del]

text \<open>One iteration of the \<^verbatim>\<open>for\<close> loop (lines 194 to 206) at position \<open>i\<close>.\<close>

definition step_02 :: "series \<Rightarrow> real list \<Rightarrow> nat \<Rightarrow> margin_state \<Rightarrow> margin_state \<times> error option" where
  "step_02 series decrease_buys i st0 =
     (let st1 = (if series ! i > max_price st0 then st0\<lparr>max_price := series ! i\<rparr> else st0)
      in if series ! i < min_price st1 then
           fire_02 decrease_buys
             (st1\<lparr>min_price := series ! i,
                  current_decrease := (max_price st1 - series ! i) / max_price st1\<rparr>)
         else (st1, None))"

fun loop_02 :: "series \<Rightarrow> real list \<Rightarrow> nat list \<Rightarrow> margin_state \<Rightarrow> margin_state list \<times> error option" where
  "loop_02 series decrease_buys [] st = ([], None)"
| "loop_02 series decrease_buys (i # is) st =
     (case step_02 series decrease_buys i st of
        (st', Some e) \<Rightarrow> ([st'], Some e)
      | (st', None) \<Rightarrow>
          (case loop_02 series decrease_buys is st' of
             (tr, r) \<Rightarrow> (st' # tr, r)))"

text \<open>
  The whole call: the sequence of loop states and the exception, if any. The percentages
  are used as they are passed (they are not divided by 100), \<^verbatim>\<open>margin_rate\<close> and
  \<^verbatim>\<open>increase_sells\<close> are only named in the header and the assertions, and the copy of
  \<^verbatim>\<open>increase_percentages\<close> is never read.
\<close>

definition alg_02_run ::
  "series \<Rightarrow> real \<Rightarrow> real \<Rightarrow> real list \<Rightarrow> real list \<Rightarrow> real list \<Rightarrow> real list
     \<Rightarrow> margin_state list \<times> error option" where
  "alg_02_run series margin_rate margin0 decrease_percentages0 decrease_buys
       increase_percentages0 increase_sells =
     (if \<not> valid_perc decrease_percentages0 then ([], Some AssertionError)
      else if \<not> valid_perc decrease_buys then ([], Some AssertionError)
      else if \<not> valid_perc increase_percentages0 then ([], Some AssertionError)
      else if \<not> valid_perc increase_sells then ([], Some AssertionError)
      else
        let s = length series in
        if s = 0 then ([], Some LookupError)
        else
          let st0 = \<lparr>max_price = series ! (s - 1),
                     min_price = series ! (s - 1),
                     current_decrease = 0,
                     current_increase = 0,
                     m_stock_val = 0,
                     margin = margin0,
                     decrease_percentages = decrease_percentages0,
                     increase_percentages = increase_percentages0\<rparr>
          in case loop_02 series decrease_buys (rev [0..<s - 1]) st0 of
               (tr, r) \<Rightarrow> (st0 # tr, r))"

text \<open>The function has no \<^verbatim>\<open>return\<close>: a call that raises nothing yields \<^verbatim>\<open>None\<close>.\<close>

definition alg_02 ::
  "series \<Rightarrow> real \<Rightarrow> real \<Rightarrow> real list \<Rightarrow> real list \<Rightarrow> real list \<Rightarrow> real list \<Rightarrow> error + unit" where
  "alg_02 series margin_rate margin0 decrease_percentages0 decrease_buys
       increase_percentages0 increase_sells =
     (case snd (alg_02_run series margin_rate margin0 decrease_percentages0 decrease_buys
                  increase_percentages0 increase_sells) of
        Some e \<Rightarrow> Inl e
      | None \<Rightarrow> Inr ())"

subsection \<open>The drawdown in double precision\<close>

text \<open>
  The loop states above carry the drawdown in exact arithmetic. What the source computes
  at lines 95 and 202 is the double nearest to each exact intermediate result: IEEE 754
  division and subtraction round to nearest, ties to even, with a significand of 53 bits
  and gradual underflow below 2 to the power -1022. Overflow is not modelled; the
  quotients and differences of a drawdown never exceed the larger operand.

  \<open>round_even\<close> is the nearest integer with ties to even, \<open>binade\<close> the exponent of the
  binade of a number (at least that of the subnormal doubles), \<open>fl\<close> the rounding of a
  real number to a double, and \<open>is_double\<close> says that rounding changes nothing.
\<close>

definition round_even :: "real \<Rightarrow> int" where
  "round_even r =
     (let f = \<lfloor>r\<rfloor>; d = r - of_int f
      in if d < 1 / 2 then f
         else if 1 / 2 < d then f + 1
         else if even f then f else f + 1)"

definition binade :: "real \<Rightarrow> int" where
  "binade x = max \<lfloor>log 2 \<bar>x\<bar>\<rfloor> (- 1022)"

definition fl :: "real \<Rightarrow> real" where
  "fl x = (if x = 0 then 0
           else of_int (round_even (x / 2 powr of_int (binade x - 52)))
                  * 2 powr of_int (binade x - 52))"

definition is_double :: "real \<Rightarrow> bool" where
  "is_double x = (fl x = x)"

text \<open>
  Line 95 of \<^verbatim>\<open>alg_01\<close>, \<^verbatim>\<open>1 - min/max\<close>, and line 202 of \<^verbatim>\<open>alg_02\<close>, \<^verbatim>\<open>(max - min) / max\<close>, on
  the doubles \<open>mx\<close> and \<open>mn\<close>.
\<close>

definition double_drawdown_01 :: "real \<Rightarrow> real \<Rightarrow> real" where
  "double_drawdown_01 mx mn = fl (1 - fl (mn / mx))"

definition double_drawdown_02 :: "real \<Rightarrow> real \<Rightarrow> real" where
  "double_drawdown_02 mx mn = fl (fl (mx - mn) / mx)"

subsection \<open>Notions of the specification\<close>

text \<open>
  A margin draw as the specification words it: the action draws
  \<open>action_fraction * available_margin / 100\<close> into the margin-stock position, and the
  available margin is then reduced by the (cumulative) margin-stock value. The pair is
  (margin-stock value, available margin).
\<close>

definition margin_draw :: "real \<Rightarrow> real \<times> real \<Rightarrow> real \<times> real" where
  "margin_draw action_fraction =
     (\<lambda>(m_stock, available).
        let m_stock' = m_stock + action_fraction * available / 100
        in (m_stock', available - m_stock'))"

text \<open>The number of leading triggers that a magnitude strictly exceeds.\<close>

definition fired :: "real \<Rightarrow> real list \<Rightarrow> nat" where
  "fired magnitude triggers = length (takeWhile (\<lambda>d. magnitude > d) triggers)"

text \<open>
  A sale of the rebalance engine as the specification words it: sell
  \<open>bond_value * action_fraction\<close> worth of bonds and move that amount into the stock
  valuation. The pair is (stock value, bond value).
\<close>

definition rebalance_sale :: "real \<Rightarrow> real \<times> real \<Rightarrow> real \<times> real" where
  "rebalance_sale action_fraction =
     (\<lambda>(stock, bond).
        let amount = bond * action_fraction
        in (stock + amount, bond - amount))"

text \<open>
  The part of the state of \<^verbatim>\<open>alg_02\<close> that the decrease side computes: everything but
  \<^verbatim>\<open>current_increase\<close> and the copy of \<^verbatim>\<open>increase_percentages\<close>.
\<close>

definition decrease_side :: "margin_state \<Rightarrow> real \<times> real \<times> real \<times> real \<times> real \<times> real list" where
  "decrease_side st =
     (m_stock_val st, margin st, max_price st, min_price st, current_decrease st,
      decrease_percentages st)"

text \<open>
  The running extrema between two consecutive loop states, in either engine: the maximum
  does not decrease and the minimum does not increase; and the drawdown: it is recomputed
  as \<open>1 - min / max\<close> exactly when the minimum has decreased.
\<close>

definition extrema_step :: "'a walker_scheme \<Rightarrow> 'a walker_scheme \<Rightarrow> bool" where
  "extrema_step s t = (max_price s \<le> max_price t \<and> min_price t \<le> min_price s)"

definition drawdown_step :: "'a walker_scheme \<Rightarrow> 'a walker_scheme \<Rightarrow> bool" where
  "drawdown_step s t =
     (if min_price t < min_price s
      then current_decrease t = 1 - min_price t / max_price t
      else current_decrease t = current_decrease s)"

definition extrema_ordered :: "'a walker_scheme \<Rightarrow> bool" where
  "extrema_ordered s = (min_price s \<le> max_price s)"

definition drawdown_in_range :: "'a walker_scheme \<Rightarrow> bool" where
  "drawdown_in_range s =
     (0 < min_price s \<and> min_price s \<le> max_price s
      \<and> 0 \<le> current_decrease s \<and> current_decrease s < 1)"

text \<open>
  The two invariants of a sequence of loop states: the extrema start at the first
  traversed price and move monotonically with the minimum below the maximum; and every
  drawdown lies in the half-open interval from 0 to 1, over a positive maximum.
\<close>

definition walk_invariant :: "real \<Rightarrow> 'a walker_scheme list \<Rightarrow> bool" where
  "walk_invariant first tr =
     ((case tr of [] \<Rightarrow> True | st # _ \<Rightarrow> max_price st = first \<and> min_price st = first)
      \<and> successively extrema_step tr
      \<and> list_all extrema_ordered tr)"

definition drawdown_invariant :: "'a walker_scheme list \<Rightarrow> bool" where
  "drawdown_invariant tr = (successively drawdown_step tr \<and> list_all drawdown_in_range tr)"

text \<open>
  The extrema of a loop state, and the range of the drawdown that the source computes in
  double precision from them: between 0 and 1, both included, over a positive maximum.
\<close>

definition extrema :: "'a walker_scheme \<Rightarrow> real \<times> real" where
  "extrema s = (max_price s, min_price s)"

definition double_drawdown_in_range_01 :: "'a walker_scheme \<Rightarrow> bool" where
  "double_drawdown_in_range_01 s =
     (0 < max_price s
      \<and> 0 \<le> double_drawdown_01 (max_price s) (min_price s)
      \<and> double_drawdown_01 (max_price s) (min_price s) \<le> 1)"

definition double_drawdown_in_range_02 :: "'a walker_scheme \<Rightarrow> bool" where
  "double_drawdown_in_range_02 s =
     (0 < max_price s
      \<and> 0 \<le> double_drawdown_02 (max_price s) (min_price s)
      \<and> double_drawdown_02 (max_price s) (min_price s) \<le> 1)"

text \<open>
  Buy and hold, as the specification words it: the two valuations under the raw price
  ratios of the positions \<open>is\<close>, with the contribution added to the bond valuation at
  every position that is a multiple of 25; and the cumulative price ratio over a list of
  positions.
\<close>

fun hold :: "series \<Rightarrow> series \<Rightarrow> real \<Rightarrow> nat list \<Rightarrow> real \<times> real \<Rightarrow> real \<times> real" where
  "hold stock_series bond_series monthly_addn [] (sv, bv) = (sv, bv)"
| "hold stock_series bond_series monthly_addn (i # is) (sv, bv) =
     hold stock_series bond_series monthly_addn is
       (sv * (stock_series ! i / stock_series ! (i + 1)),
        bv * (bond_series ! i / bond_series ! (i + 1))
          + (if i mod 25 = 0 then monthly_addn else 0))"

definition growth :: "series \<Rightarrow> nat list \<Rightarrow> real" where
  "growth xs is = prod_list (map (\<lambda>i. xs ! i / xs ! (i + 1)) is)"

section \<open>Properties\<close>

subsection \<open>The inner loops consume the ladder\<close>

text \<open>Neither inner loop ever lengthens the list of triggers.\<close>

lemma fire_01_length: "length (decr_perc (fst (fire_01 st))) \<le> length (decr_perc st)"
proof (induction st rule: fire_01.induct)
  case (1 st)
  show ?case
  proof (cases "decr_perc st")
    case Nil
    then show ?thesis by (simp add: fire_01.simps [of st])
  next
    case (Cons d ds)
    show ?thesis
    proof (cases "current_decrease st > d")
      case False
      with Cons show ?thesis by (simp add: fire_01.simps [of st])
    next
      case True
      show ?thesis
      proof (cases "sell_perc st")
        case Nil
        with Cons True show ?thesis by (simp add: fire_01.simps [of st])
      next
        case (Cons p ps)
        from "1.IH" [OF \<open>decr_perc st = d # ds\<close> True Cons refl]
        show ?thesis using \<open>decr_perc st = d # ds\<close> True Cons
          by (simp add: fire_01.simps [of st] Let_def)
      qed
    qed
  qed
qed

lemma fire_02_length:
  "length (decrease_percentages (fst (fire_02 buys st))) \<le> length (decrease_percentages st)"
proof (induction buys st rule: fire_02.induct)
  case (1 buys st)
  show ?case
  proof (cases "decrease_percentages st")
    case Nil
    then show ?thesis by (simp add: fire_02.simps [of _ st])
  next
    case (Cons d ds)
    show ?thesis
    proof (cases "current_decrease st > d")
      case False
      with Cons show ?thesis by (simp add: fire_02.simps [of _ st])
    next
      case True
      show ?thesis
      proof (cases buys)
        case Nil
        with Cons True show ?thesis by (simp add: fire_02.simps [of _ st])
      next
        case (Cons b bs)
        from "1.IH" [OF \<open>decrease_percentages st = d # ds\<close> True Cons refl]
        show ?thesis using \<open>decrease_percentages st = d # ds\<close> True Cons
          by (simp add: fire_02.simps [of _ st] Let_def)
      qed
    qed
  qed
qed

subsection \<open>Validation\<close>

text \<open>
  Claim C1. If a value of \<^verbatim>\<open>decr_perc\<close> or \<^verbatim>\<open>sell_perc\<close> is outside the open interval
  (0, 100), or the two lists differ in length, or the two series differ in length, then
  \<^verbatim>\<open>alg_01\<close> fails with \<^verbatim>\<open>AssertionError\<close> (InvalidParameter) and nothing of the simulation
  is executed: the sequence of loop states is empty, not even the initial state exists.
\<close>

theorem alg_01_invalid_parameter:
  assumes "(\<exists>x \<in> set decr \<union> set sell. x \<le> 0 \<or> 100 \<le> x)
           \<or> length decr \<noteq> length sell
           \<or> length stock_series \<noteq> length bond_series"
  shows "alg_01 stock_series bond_series sv bv decr sell addn = Inl AssertionError
         \<and> fst (alg_01_run stock_series bond_series sv bv decr sell addn) = []"
proof -
  have "\<not> valid_perc decr \<or> \<not> valid_perc sell
        \<or> length decr \<noteq> length sell \<or> length stock_series \<noteq> length bond_series"
    using assms by (auto simp: valid_perc_def list_all_iff not_less)
  then show ?thesis
    by (auto simp: alg_01_def alg_01_run_def)
qed

theorem alg_01_invalid_parameter_witness:
  "alg_01 [100, 90, 100] [50, 50, 50] 1000 1000 [150] [10] 0 = Inl AssertionError
   \<and> fst (alg_01_run [100, 90, 100] [50, 50, 50] 1000 1000 [150] [10] 0) = []
   \<and> alg_01 [5, 4, 3, 2, 1] [4, 3, 2, 1] 1000 1000 [5] [10] 0 = Inl AssertionError
   \<and> alg_01 [100, 90, 100] [50, 50, 50] 1000 1000 [5, 6] [10] 0 = Inl AssertionError"
  using alg_01_invalid_parameter [of "[150]" "[10]" "[100, 90, 100]" "[50, 50, 50]" 1000 1000 0]
        alg_01_invalid_parameter [of "[5]" "[10]" "[5, 4, 3, 2, 1]" "[4, 3, 2, 1]" 1000 1000 0]
        alg_01_invalid_parameter [of "[5, 6]" "[10]" "[100, 90, 100]" "[50, 50, 50]" 1000 1000 0]
  by simp

subsection \<open>The comparison with the front trigger is strict\<close>

text \<open>
  Claim C4. In both engines, when the inner loop is entered at a new minimum with a
  non-empty ladder, it leaves the state untouched and raises nothing exactly when the
  drawdown does not strictly exceed the front trigger; in particular a drawdown equal to
  the front trigger fires nothing.
\<close>

theorem strict_trigger:
  "(decr_perc st = d # ds \<longrightarrow> (fire_01 st = (st, None)) = (current_decrease st \<le> d))
   \<and> (decrease_percentages mt = e # es \<longrightarrow>
        (fire_02 buys mt = (mt, None)) = (current_decrease mt \<le> e))"
proof (intro conjI impI)
  assume l: "decr_perc st = d # ds"
  show "(fire_01 st = (st, None)) = (current_decrease st \<le> d)"
  proof (cases "current_decrease st \<le> d")
    case True
    with l show ?thesis by (simp add: fire_01.simps [of st])
  next
    case False
    show ?thesis
    proof (cases "sell_perc st")
      case Nil
      with l False show ?thesis by (simp add: fire_01.simps [of st])
    next
      case (Cons p ps)
      define st' where "st' = st\<lparr>bond_val := bond_val st - bond_val st * p,
                              stock_val := stock_val st + bond_val st * p,
                              decr_perc := ds, sell_perc := ps\<rparr>"
      have eq: "fire_01 st = fire_01 st'"
        using l False Cons by (simp add: fire_01.simps [of st] Let_def st'_def)
      have "length (decr_perc (fst (fire_01 st'))) \<le> length ds"
        using fire_01_length [of st'] by (simp add: st'_def)
      then have "fst (fire_01 st) \<noteq> st" using l eq by auto
      then have "fire_01 st \<noteq> (st, None)" by auto
      with False show ?thesis by simp
    qed
  qed
next
  assume l: "decrease_percentages mt = e # es"
  show "(fire_02 buys mt = (mt, None)) = (current_decrease mt \<le> e)"
  proof (cases "current_decrease mt \<le> e")
    case True
    with l show ?thesis by (simp add: fire_02.simps [of _ mt])
  next
    case False
    show ?thesis
    proof (cases buys)
      case Nil
      with l False show ?thesis by (simp add: fire_02.simps [of _ mt])
    next
      case (Cons b bs)
      define mt' where "mt' = mt\<lparr>m_stock_val := m_stock_val mt + b * margin mt / 100,
                              margin := margin mt - (m_stock_val mt + b * margin mt / 100),
                              decrease_percentages := es\<rparr>"
      have eq: "fire_02 buys mt = fire_02 buys mt'"
        using l False Cons by (simp add: fire_02.simps [of _ mt] Let_def mt'_def)
      have "length (decrease_percentages (fst (fire_02 buys mt'))) \<le> length es"
        using fire_02_length [of buys mt'] by (simp add: mt'_def)
      then have "fst (fire_02 buys mt) \<noteq> mt" using l eq by auto
      then have "fire_02 buys mt \<noteq> (mt, None)" by auto
      with False show ?thesis by simp
    qed
  qed
qed

theorem strict_trigger_witness:
  "fire_01 \<lparr>max_price = 100, min_price = 50, current_decrease = 1 / 2,
            stock_val = 500, bond_val = 1000, decr_perc = [1 / 2], sell_perc = [1 / 10]\<rparr>
     = (\<lparr>max_price = 100, min_price = 50, current_decrease = 1 / 2,
         stock_val = 500, bond_val = 1000, decr_perc = [1 / 2], sell_perc = [1 / 10]\<rparr>, None)
   \<and> fire_02 [10]
        \<lparr>max_price = 100, min_price = 50, current_decrease = 1 / 2, current_increase = 0,
         m_stock_val = 0, margin = 1000, decrease_percentages = [1 / 2],
         increase_percentages = []\<rparr>
     = (\<lparr>max_price = 100, min_price = 50, current_decrease = 1 / 2, current_increase = 0,
         m_stock_val = 0, margin = 1000, decrease_percentages = [1 / 2],
         increase_percentages = []\<rparr>, None)"
  using strict_trigger [of
      "\<lparr>max_price = 100, min_price = 50, current_decrease = 1 / 2,
        stock_val = 500, bond_val = 1000, decr_perc = [1 / 2], sell_perc = [1 / 10]\<rparr>"
      "1 / 2" "[]"
      "\<lparr>max_price = 100, min_price = 50, current_decrease = 1 / 2, current_increase = 0,
        m_stock_val = 0, margin = 1000, decrease_percentages = [1 / 2],
        increase_percentages = []\<rparr>"
      "1 / 2" "[]" "[10]"]
  by simp

subsection \<open>Reading the front of an empty ladder\<close>

text \<open>
  Claim C2. After the ladder is depleted, a further evaluation of the loop condition is
  claimed to do nothing and raise nothing. In \<^verbatim>\<open>alg_01\<close>, on the prices 100, 90, 80 with
  the single trigger of 5 percent, the drop to 90 fires the entry and the condition is
  then evaluated on the empty list: the call ends with \<^verbatim>\<open>IndexError\<close> before the price 80
  is visited. In \<^verbatim>\<open>alg_02\<close>, on the prices 100, 50, 40 with the single trigger 0.1, the
  same happens at the price 50.
\<close>

theorem depleted_ladder_raises:
  "alg_01_run [80, 90, 100] [50, 50, 50] 1000 1000 [5] [10] 0 =
     ([\<lparr>max_price = 100, min_price = 100, current_decrease = 0,
        stock_val = 1000, bond_val = 1000, decr_perc = [1 / 20], sell_perc = [1 / 10]\<rparr>,
       \<lparr>max_price = 100, min_price = 90, current_decrease = 1 / 10,
        stock_val = 1000, bond_val = 900, decr_perc = [], sell_perc = []\<rparr>],
      Inl IndexError)
   \<and> alg_02_run [40, 50, 100] 5 1000 [1 / 10] [10] [] [] =
     ([\<lparr>max_price = 100, min_price = 100, current_decrease = 0, current_increase = 0,
        m_stock_val = 0, margin = 1000, decrease_percentages = [1 / 10],
        increase_percentages = []\<rparr>,
       \<lparr>max_price = 100, min_price = 50, current_decrease = 1 / 2, current_increase = 0,
        m_stock_val = 100, margin = 900, decrease_percentages = [],
        increase_percentages = []\<rparr>],
      Some IndexError)"
  by (simp add: alg_01_run_def alg_02_run_def valid_perc_def step_01_def step_02_def
      fire_01.simps fire_02.simps Let_def)

text \<open>
  Claim C3. With both threshold lists empty, \<^verbatim>\<open>alg_01\<close> is claimed to return the
  buy-and-hold return. On the two-price series 100 then 90 the second price is a new
  minimum, the loop condition reads \<^verbatim>\<open>decr_perc[0]\<close> of the empty list, and the call ends
  with \<^verbatim>\<open>IndexError\<close> instead of returning \<open>(900 + 1000) / 2000 - 1\<close>.
\<close>

theorem empty_ladder_raises:
  "alg_01 [90, 100] [50, 50] 1000 1000 [] [] 0 = Inl IndexError"
  by (simp add: alg_01_def alg_01_run_def valid_perc_def step_01_def fire_01.simps Let_def)

text \<open>
  Claim C6. Scenario A: the drawdown of 10 percent at the price 90 exceeds the trigger of
  5 percent, the single entry fires once (100 of the bond value moves into stock), and
  the loop condition is evaluated again on the now empty list: the call ends with
  \<^verbatim>\<open>IndexError\<close> in the first iteration and returns no portfolio change.
\<close>

theorem scenario_A_raises:
  "alg_01_run [100, 90, 100] [50, 50, 50] 1000 1000 [5] [10] 0 =
     ([\<lparr>max_price = 100, min_price = 100, current_decrease = 0,
        stock_val = 1000, bond_val = 1000, decr_perc = [1 / 20], sell_perc = [1 / 10]\<rparr>,
       \<lparr>max_price = 100, min_price = 90, current_decrease = 1 / 10,
        stock_val = 1000, bond_val = 900, decr_perc = [], sell_perc = []\<rparr>],
      Inl IndexError)"
  by (simp add: alg_01_run_def valid_perc_def step_01_def fire_01.simps Let_def)

subsection \<open>The margin engine pops the triggers only\<close>

text \<open>
  The inner loop of \<^verbatim>\<open>alg_01\<close> in closed form, for lists of equal length as the
  assertions leave them: the k-th firing sells the k-th fraction of \<^verbatim>\<open>sell_perc\<close>, and
  both lists lose their first k entries.
\<close>

lemma fire_01_closed_form:
  "length (decr_perc st) \<le> length (sell_perc st) \<Longrightarrow>
   fire_01 st =
     (let k = fired (current_decrease st) (decr_perc st);
          (sv, bv) = fold rebalance_sale (take k (sell_perc st)) (stock_val st, bond_val st)
      in (st\<lparr>bond_val := bv, stock_val := sv,
             decr_perc := drop k (decr_perc st),
             sell_perc := drop k (sell_perc st)\<rparr>,
          if k = length (decr_perc st) then Some IndexError else None))"
proof (induction st rule: fire_01.induct)
  case (1 st)
  show ?case
  proof (cases "decr_perc st")
    case Nil
    then show ?thesis by (simp add: fire_01.simps [of st] fired_def)
  next
    case (Cons d ds)
    show ?thesis
    proof (cases "current_decrease st > d")
      case False
      with Cons show ?thesis by (simp add: fire_01.simps [of st] fired_def)
    next
      case True
      from "1.prems" Cons obtain p ps where sell: "sell_perc st = p # ps"
        by (cases "sell_perc st") auto
      define st' where "st' = st\<lparr>bond_val := bond_val st - bond_val st * p,
                              stock_val := stock_val st + bond_val st * p,
                              decr_perc := ds, sell_perc := ps\<rparr>"
      have eq: "fire_01 st = fire_01 st'"
        using Cons True sell by (simp add: fire_01.simps [of st] Let_def st'_def)
      have len: "length (decr_perc st') \<le> length (sell_perc st')"
        using "1.prems" Cons sell by (simp add: st'_def)
      have ih: "fire_01 st' =
          (let k = fired (current_decrease st') (decr_perc st');
               (sv, bv) = fold rebalance_sale (take k (sell_perc st'))
                            (stock_val st', bond_val st')
           in (st'\<lparr>bond_val := bv, stock_val := sv,
                   decr_perc := drop k (decr_perc st'),
                   sell_perc := drop k (sell_perc st')\<rparr>,
               if k = length (decr_perc st') then Some IndexError else None))"
        using "1.IH" [OF Cons True sell refl] len by (simp add: st'_def)
      have k: "fired (current_decrease st) (decr_perc st)
                 = Suc (fired (current_decrease st') (decr_perc st'))"
        using Cons True by (simp add: fired_def st'_def)
      have d: "(stock_val st', bond_val st') = rebalance_sale p (stock_val st, bond_val st)"
        by (simp add: st'_def rebalance_sale_def Let_def)
      show ?thesis
        unfolding eq ih k
        by (simp add: d [symmetric] Cons sell Let_def split: prod.splits) (simp add: st'_def)
    qed
  qed
qed

text \<open>
  Claim C7. The k-th firing is claimed to draw the fraction \<^verbatim>\<open>decrease_buys[k-1]\<close>. In
  \<^verbatim>\<open>alg_02\<close> a drop from 100 to 50 exceeds the first two of the triggers 0.1, 0.2, 0.9;
  with the buys 10, 20, 30 and a margin of 1000 the first firing draws 10 percent of
  1000, and the second draws 10 percent of 900 again (not 20 percent): the margin-stock
  value ends at 190 and the margin at 710, where the claim gives 280 and 620.
\<close>

theorem margin_second_firing_reuses_first_buy:
  "alg_02_run [50, 100] 5 1000 [1 / 10, 2 / 10, 9 / 10] [10, 20, 30] [] [] =
     ([\<lparr>max_price = 100, min_price = 100, current_decrease = 0, current_increase = 0,
        m_stock_val = 0, margin = 1000, decrease_percentages = [1 / 10, 2 / 10, 9 / 10],
        increase_percentages = []\<rparr>,
       \<lparr>max_price = 100, min_price = 50, current_decrease = 1 / 2, current_increase = 0,
        m_stock_val = 190, margin = 710, decrease_percentages = [9 / 10],
        increase_percentages = []\<rparr>],
      None)"
  by (simp add: alg_02_run_def valid_perc_def step_02_def fire_02.simps Let_def)

subsection \<open>What a margin draw does\<close>

text \<open>
  The inner loop of \<^verbatim>\<open>alg_02\<close> in closed form: it fires once for every leading trigger
  that the drawdown strictly exceeds, every firing is one margin draw with the fraction
  at the front of \<^verbatim>\<open>decrease_buys\<close>, and it raises when all triggers were consumed.
\<close>

lemma fire_02_closed_form:
  "fire_02 (b # bs) st =
     (let k = fired (current_decrease st) (decrease_percentages st);
          (m, a) = (margin_draw b ^^ k) (m_stock_val st, margin st)
      in (st\<lparr>m_stock_val := m, margin := a,
             decrease_percentages := drop k (decrease_percentages st)\<rparr>,
          if k = length (decrease_percentages st) then Some IndexError else None))"
proof (induction "b # bs" st rule: fire_02.induct)
  case (1 st)
  show ?case
  proof (cases "decrease_percentages st")
    case Nil
    then show ?thesis by (simp add: fire_02.simps [of _ st] fired_def)
  next
    case (Cons d ds)
    show ?thesis
    proof (cases "current_decrease st > d")
      case False
      with Cons show ?thesis by (simp add: fire_02.simps [of _ st] fired_def)
    next
      case True
      define st' where "st' = st\<lparr>m_stock_val := m_stock_val st + b * margin st / 100,
                              margin := margin st - (m_stock_val st + b * margin st / 100),
                              decrease_percentages := ds\<rparr>"
      have eq: "fire_02 (b # bs) st = fire_02 (b # bs) st'"
        using Cons True by (simp add: fire_02.simps [of _ st] Let_def st'_def)
      have ih: "fire_02 (b # bs) st' =
          (let k = fired (current_decrease st') (decrease_percentages st');
               (m, a) = (margin_draw b ^^ k) (m_stock_val st', margin st')
           in (st'\<lparr>m_stock_val := m, margin := a,
                   decrease_percentages := drop k (decrease_percentages st')\<rparr>,
               if k = length (decrease_percentages st') then Some IndexError else None))"
        using "1.hyps" [OF Cons True refl refl] by (simp add: st'_def)
      have k: "fired (current_decrease st) (decrease_percentages st)
                 = Suc (fired (current_decrease st') (decrease_percentages st'))"
        using Cons True by (simp add: fired_def st'_def)
      have d: "(m_stock_val st', margin st') = margin_draw b (m_stock_val st, margin st)"
        by (simp add: st'_def margin_draw_def Let_def)
      show ?thesis
        unfolding eq ih k
        by (simp add: funpow_swap1 d Cons Let_def split: prod.splits) (simp add: st'_def)
    qed
  qed
qed

text \<open>
  Claim C8. Each fired action is claimed to draw its own fraction of the available
  margin and then to reduce the margin by the cumulative margin-stock value. In \<^verbatim>\<open>alg_02\<close>
  a drop from 100 to 40 exceeds the first two of the triggers 0.1, 0.3, 0.9; with the
  buys 10, 50, 30 and a margin of 2000 the first firing draws 10 percent of 2000 (200,
  leaving 1800). The second firing draws 10 percent of 1800 again, the front of
  \<^verbatim>\<open>decrease_buys\<close>, where its own fraction is 50 percent: the margin-stock value ends at
  380 and the margin at 1420, where the claim gives 1100 and 700. The reduction of the
  margin by the cumulative value is as claimed.
\<close>

theorem margin_draw_uses_front_fraction:
  "alg_02_run [40, 100] 5 2000 [1 / 10, 3 / 10, 9 / 10] [10, 50, 30] [] [] =
     ([\<lparr>max_price = 100, min_price = 100, current_decrease = 0, current_increase = 0,
        m_stock_val = 0, margin = 2000, decrease_percentages = [1 / 10, 3 / 10, 9 / 10],
        increase_percentages = []\<rparr>,
       \<lparr>max_price = 100, min_price = 40, current_decrease = 3 / 5, current_increase = 0,
        m_stock_val = 380, margin = 1420, decrease_percentages = [9 / 10],
        increase_percentages = []\<rparr>],
      None)
   \<and> margin_draw 10 (margin_draw 10 (0, 2000)) = (380, 1420)
   \<and> margin_draw 50 (margin_draw 10 (0, 2000)) = (1100, 700)"
  by (simp add: alg_02_run_def valid_perc_def step_02_def fire_02.simps Let_def margin_draw_def)

subsection \<open>The margin rate and the increase side are never read\<close>

lemma fire_02_decrease_side:
  "decrease_side s = decrease_side t \<Longrightarrow>
     decrease_side (fst (fire_02 buys s)) = decrease_side (fst (fire_02 buys t))
     \<and> snd (fire_02 buys s) = snd (fire_02 buys t)"
proof (induction buys s arbitrary: t rule: fire_02.induct)
  case (1 buys s)
  note agree = "1.prems"
  then have dp: "decrease_percentages t = decrease_percentages s"
    and cd: "current_decrease t = current_decrease s"
    and mv: "m_stock_val t = m_stock_val s" and mg: "margin t = margin s"
    by (simp_all add: decrease_side_def)
  show ?case
  proof (cases "decrease_percentages s")
    case Nil
    with agree dp show ?thesis
      by (simp add: fire_02.simps [of _ s] fire_02.simps [of _ t])
  next
    case (Cons d ds)
    show ?thesis
    proof (cases "current_decrease s > d")
      case False
      with Cons agree dp cd show ?thesis
        by (simp add: fire_02.simps [of _ s] fire_02.simps [of _ t])
    next
      case True
      show ?thesis
      proof (cases buys)
        case Nil
        with Cons True agree dp cd show ?thesis
          by (simp add: fire_02.simps [of _ s] fire_02.simps [of _ t])
      next
        case buys: (Cons b bs)
        define s' where "s' = s\<lparr>m_stock_val := m_stock_val s + b * margin s / 100,
                              margin := margin s - (m_stock_val s + b * margin s / 100),
                              decrease_percentages := ds\<rparr>"
        define t' where "t' = t\<lparr>m_stock_val := m_stock_val s + b * margin s / 100,
                              margin := margin s - (m_stock_val s + b * margin s / 100),
                              decrease_percentages := ds\<rparr>"
        have es: "fire_02 buys s = fire_02 buys s'"
          using Cons True buys by (simp add: fire_02.simps [of _ s] Let_def s'_def)
        have et: "fire_02 buys t = fire_02 buys t'"
          using Cons True buys dp cd mv mg by (simp add: fire_02.simps [of _ t] Let_def t'_def)
        have "decrease_side s' = decrease_side t'"
          using agree by (simp add: decrease_side_def s'_def t'_def)
        from "1.IH" [OF Cons True buys refl, folded s'_def, OF this]
        show ?thesis by (simp add: es et)
      qed
    qed
  qed
qed

lemma step_02_decrease_side:
  assumes "decrease_side s = decrease_side t"
  shows "decrease_side (fst (step_02 series buys i s)) = decrease_side (fst (step_02 series buys i t))
         \<and> snd (step_02 series buys i s) = snd (step_02 series buys i t)"
proof -
  define s1 where "s1 = (if series ! i > max_price s then s\<lparr>max_price := series ! i\<rparr> else s)"
  define t1 where "t1 = (if series ! i > max_price t then t\<lparr>max_price := series ! i\<rparr> else t)"
  have a1: "decrease_side s1 = decrease_side t1"
    using assms by (simp add: decrease_side_def s1_def t1_def)
  show ?thesis
  proof (cases "series ! i < min_price s1")
    case False
    with a1 have "\<not> series ! i < min_price t1" by (simp add: decrease_side_def)
    with False a1 show ?thesis
      by (simp add: step_02_def Let_def s1_def [symmetric] t1_def [symmetric])
  next
    case True
    with a1 have tt: "series ! i < min_price t1" by (simp add: decrease_side_def)
    define s2 where "s2 = s1\<lparr>min_price := series ! i,
                  current_decrease := (max_price s1 - series ! i) / max_price s1\<rparr>"
    define t2 where "t2 = t1\<lparr>min_price := series ! i,
                  current_decrease := (max_price t1 - series ! i) / max_price t1\<rparr>"
    have "decrease_side s2 = decrease_side t2"
      using a1 by (simp add: decrease_side_def s2_def t2_def)
    from fire_02_decrease_side [OF this, of buys]
    show ?thesis using True tt
      by (simp add: step_02_def Let_def s1_def [symmetric] t1_def [symmetric]
          s2_def [symmetric] t2_def [symmetric])
  qed
qed

lemma loop_02_decrease_side:
  "decrease_side s = decrease_side t \<Longrightarrow>
     map decrease_side (fst (loop_02 series buys is s))
       = map decrease_side (fst (loop_02 series buys is t))
     \<and> snd (loop_02 series buys is s) = snd (loop_02 series buys is t)"
proof (induction "is" arbitrary: s t)
  case Nil
  show ?case by simp
next
  case (Cons i "is")
  obtain s' r where s: "step_02 series buys i s = (s', r)" by force
  obtain t' r' where t: "step_02 series buys i t = (t', r')" by force
  from step_02_decrease_side [OF Cons.prems, of series buys i] s t
  have a: "decrease_side s' = decrease_side t'" and r: "r' = r" by simp_all
  show ?case
  proof (cases r)
    case None
    with s t r a Cons.IH [OF a] show ?thesis
      by (auto split: prod.splits)
  next
    case (Some e)
    with s t r a show ?thesis by simp
  qed
qed

text \<open>
  Claim C9. Two calls of \<^verbatim>\<open>alg_02\<close> that agree on the series, the margin, the decrease
  percentages and the decrease buys, and whose increase-side lists pass the validation,
  compute the same margin-stock value, available margin, extrema, drawdown and remaining
  triggers at every step and end the same way, whatever their margin rates and
  increase-side lists are.
\<close>

theorem margin_rate_and_increase_side_unused:
  assumes "valid_perc increase_percentages1" "valid_perc increase_sells1"
      and "valid_perc increase_percentages2" "valid_perc increase_sells2"
  shows "map decrease_side
           (fst (alg_02_run series margin_rate1 margin0 decrease_percentages0 decrease_buys
                   increase_percentages1 increase_sells1))
         = map decrease_side
           (fst (alg_02_run series margin_rate2 margin0 decrease_percentages0 decrease_buys
                   increase_percentages2 increase_sells2))
       \<and> snd (alg_02_run series margin_rate1 margin0 decrease_percentages0 decrease_buys
                   increase_percentages1 increase_sells1)
         = snd (alg_02_run series margin_rate2 margin0 decrease_percentages0 decrease_buys
                   increase_percentages2 increase_sells2)"
proof -
  define st0 where "st0 ip = \<lparr>max_price = series ! (length series - 1),
                     min_price = series ! (length series - 1),
                     current_decrease = 0,
                     current_increase = 0,
                     m_stock_val = 0,
                     margin = margin0,
                     decrease_percentages = decrease_percentages0,
                     increase_percentages = ip\<rparr>" for ip :: "real list"
  have run: "alg_02_run series rate margin0 decrease_percentages0 decrease_buys ip sells =
      (if \<not> valid_perc decrease_percentages0 \<or> \<not> valid_perc decrease_buys
       then ([], Some AssertionError)
       else if length series = 0 then ([], Some LookupError)
       else (st0 ip # fst (loop_02 series decrease_buys (rev [0..<length series - 1]) (st0 ip)),
             snd (loop_02 series decrease_buys (rev [0..<length series - 1]) (st0 ip))))"
    if "valid_perc ip" "valid_perc sells" for rate ip sells
    using that by (simp add: alg_02_run_def Let_def st0_def split: prod.splits)
  have "decrease_side (st0 increase_percentages1) = decrease_side (st0 increase_percentages2)"
    by (simp add: decrease_side_def st0_def)
  from this loop_02_decrease_side [OF this, of series decrease_buys "rev [0..<length series - 1]"]
  show ?thesis
    using assms by (simp add: run)
qed

theorem margin_rate_and_increase_side_unused_witness:
  "map decrease_side (fst (alg_02_run [50, 100] 5 1000 [1 / 10, 2 / 10, 9 / 10] [10, 20, 30] [] []))
     = map decrease_side
         (fst (alg_02_run [50, 100] 12 1000 [1 / 10, 2 / 10, 9 / 10] [10, 20, 30] [3, 7] [50]))
   \<and> snd (alg_02_run [50, 100] 5 1000 [1 / 10, 2 / 10, 9 / 10] [10, 20, 30] [] [])
     = snd (alg_02_run [50, 100] 12 1000 [1 / 10, 2 / 10, 9 / 10] [10, 20, 30] [3, 7] [50])"
  using margin_rate_and_increase_side_unused
     [of "[]" "[]" "[3, 7]" "[50]" "[50, 100]" 5 1000 "[1 / 10, 2 / 10, 9 / 10]" "[10, 20, 30]" 12]
  by (simp add: valid_perc_def)

subsection \<open>Running extrema and drawdown\<close>

text \<open>
  The inner loops leave the extrema and the drawdown alone. The lemmas of this subsection
  are about the loop states, whose drawdown is the exact one: it stays below 1.
\<close>

lemma fire_01_walker:
  "max_price (fst (fire_01 st)) = max_price st
   \<and> min_price (fst (fire_01 st)) = min_price st
   \<and> current_decrease (fst (fire_01 st)) = current_decrease st"
proof (induction st rule: fire_01.induct)
  case (1 st)
  show ?case
  proof (cases "decr_perc st")
    case Nil
    then show ?thesis by (simp add: fire_01.simps [of st])
  next
    case (Cons d ds)
    show ?thesis
    proof (cases "current_decrease st > d")
      case False
      with Cons show ?thesis by (simp add: fire_01.simps [of st])
    next
      case True
      show ?thesis
      proof (cases "sell_perc st")
        case Nil
        with Cons True show ?thesis by (simp add: fire_01.simps [of st])
      next
        case sell: (Cons p ps)
        from "1.IH" [OF Cons True sell refl]
        show ?thesis using Cons True sell
          by (simp add: fire_01.simps [of st] Let_def)
      qed
    qed
  qed
qed

lemma step_01_walker:
  fixes stock_series bond_series monthly_addn i s
  defines "t \<equiv> fst (step_01 stock_series bond_series monthly_addn i s)"
  defines "p \<equiv> stock_series ! i"
  shows "max_price t = (if p > max_price s then p else max_price s)"
    and "min_price t = (if p < min_price s then p else min_price s)"
    and "current_decrease t =
           (if p < min_price s then 1 - p / (if p > max_price s then p else max_price s)
            else current_decrease s)"
  unfolding t_def p_def
  by (simp_all add: step_01_def Let_def fire_01_walker)

lemma step_01_extrema:
  assumes "extrema_ordered s"
  shows "extrema_step s (fst (step_01 stock_series bond_series monthly_addn i s))
         \<and> extrema_ordered (fst (step_01 stock_series bond_series monthly_addn i s))"
  using assms by (auto simp: extrema_step_def extrema_ordered_def step_01_walker)

lemma drawdown_bounds:
  fixes p m :: real
  assumes "0 < p" "p < m"
  shows "0 \<le> 1 - p / m" "1 - p / m < 1"
  using assms by (simp_all add: field_simps)

lemma step_01_drawdown:
  assumes "drawdown_in_range s" "0 < stock_series ! i"
  shows "drawdown_step s (fst (step_01 stock_series bond_series monthly_addn i s))
         \<and> drawdown_in_range (fst (step_01 stock_series bond_series monthly_addn i s))"
proof -
  let ?p = "stock_series ! i"
  show ?thesis
  proof (cases "?p < min_price s")
    case True
    with assms have "?p < max_price s" by (simp add: drawdown_in_range_def)
    with True assms drawdown_bounds [of ?p "max_price s"] show ?thesis
      by (simp add: drawdown_step_def drawdown_in_range_def step_01_walker)
  next
    case False
    with assms show ?thesis
      by (auto simp: drawdown_step_def drawdown_in_range_def step_01_walker)
  qed
qed

lemma loop_01_extrema:
  "extrema_ordered s \<Longrightarrow>
     successively extrema_step (s # fst (loop_01 stock_series bond_series monthly_addn is s))
     \<and> list_all extrema_ordered (fst (loop_01 stock_series bond_series monthly_addn is s))"
proof (induction "is" arbitrary: s)
  case Nil
  show ?case by simp
next
  case (Cons i "is")
  obtain s' r where st: "step_01 stock_series bond_series monthly_addn i s = (s', r)" by force
  with step_01_extrema [OF Cons.prems, of stock_series bond_series monthly_addn i]
  have a: "extrema_step s s'" "extrema_ordered s'" by simp_all
  show ?case
  proof (cases r)
    case None
    with st a Cons.IH [OF a(2)] show ?thesis
      by (auto split: prod.splits)
  next
    case (Some e)
    with st a show ?thesis by simp
  qed
qed

lemma loop_01_drawdown:
  "drawdown_in_range s \<Longrightarrow> \<forall>i \<in> set is. 0 < stock_series ! i \<Longrightarrow>
     successively drawdown_step (s # fst (loop_01 stock_series bond_series monthly_addn is s))
     \<and> list_all drawdown_in_range (fst (loop_01 stock_series bond_series monthly_addn is s))"
proof (induction "is" arbitrary: s)
  case Nil
  show ?case by simp
next
  case (Cons i "is")
  obtain s' r where st: "step_01 stock_series bond_series monthly_addn i s = (s', r)" by force
  from Cons.prems have "0 < stock_series ! i" by simp
  with step_01_drawdown [OF Cons.prems(1), of stock_series i bond_series monthly_addn] st
  have a: "drawdown_step s s'" "drawdown_in_range s'" by simp_all
  from Cons.prems have rest: "\<forall>i \<in> set is. 0 < stock_series ! i" by simp
  show ?case
  proof (cases r)
    case None
    with st a Cons.IH [OF a(2) rest] show ?thesis
      by (auto split: prod.splits)
  next
    case (Some e)
    with st a show ?thesis by simp
  qed
qed

lemma fire_02_walker:
  "max_price (fst (fire_02 buys st)) = max_price st
   \<and> min_price (fst (fire_02 buys st)) = min_price st
   \<and> current_decrease (fst (fire_02 buys st)) = current_decrease st"
proof (induction buys st rule: fire_02.induct)
  case (1 buys st)
  show ?case
  proof (cases "decrease_percentages st")
    case Nil
    then show ?thesis by (simp add: fire_02.simps [of _ st])
  next
    case (Cons d ds)
    show ?thesis
    proof (cases "current_decrease st > d")
      case False
      with Cons show ?thesis by (simp add: fire_02.simps [of _ st])
    next
      case True
      show ?thesis
      proof (cases buys)
        case Nil
        with Cons True show ?thesis by (simp add: fire_02.simps [of _ st])
      next
        case buys: (Cons b bs)
        from "1.IH" [OF Cons True buys refl]
        show ?thesis using Cons True buys
          by (simp add: fire_02.simps [of _ st] Let_def)
      qed
    qed
  qed
qed

lemma step_02_walker:
  fixes series buys i s
  defines "t \<equiv> fst (step_02 series buys i s)"
  defines "p \<equiv> series ! i"
  shows "max_price t = (if p > max_price s then p else max_price s)"
    and "min_price t = (if p < min_price s then p else min_price s)"
    and "current_decrease t =
           (if p < min_price s
            then ((if p > max_price s then p else max_price s) - p)
                   / (if p > max_price s then p else max_price s)
            else current_decrease s)"
  unfolding t_def p_def
  by (simp_all add: step_02_def Let_def fire_02_walker)

lemma step_02_extrema:
  assumes "extrema_ordered s"
  shows "extrema_step s (fst (step_02 series buys i s))
         \<and> extrema_ordered (fst (step_02 series buys i s))"
  using assms by (auto simp: extrema_step_def extrema_ordered_def step_02_walker)

lemma step_02_drawdown:
  assumes "drawdown_in_range s" "0 < series ! i"
  shows "drawdown_step s (fst (step_02 series buys i s))
         \<and> drawdown_in_range (fst (step_02 series buys i s))"
proof -
  let ?p = "series ! i"
  show ?thesis
  proof (cases "?p < min_price s")
    case True
    with assms have lt: "?p < max_price s" by (simp add: drawdown_in_range_def)
    with assms have "(max_price s - ?p) / max_price s = 1 - ?p / max_price s"
      by (simp add: field_simps)
    with True lt assms drawdown_bounds [of ?p "max_price s"] show ?thesis
      by (simp add: drawdown_step_def drawdown_in_range_def step_02_walker)
  next
    case False
    with assms show ?thesis
      by (auto simp: drawdown_step_def drawdown_in_range_def step_02_walker)
  qed
qed

lemma loop_02_extrema:
  "extrema_ordered s \<Longrightarrow>
     successively extrema_step (s # fst (loop_02 series buys is s))
     \<and> list_all extrema_ordered (fst (loop_02 series buys is s))"
proof (induction "is" arbitrary: s)
  case Nil
  show ?case by simp
next
  case (Cons i "is")
  obtain s' r where st: "step_02 series buys i s = (s', r)" by force
  with step_02_extrema [OF Cons.prems, of series buys i]
  have a: "extrema_step s s'" "extrema_ordered s'" by simp_all
  show ?case
  proof (cases r)
    case None
    with st a Cons.IH [OF a(2)] show ?thesis
      by (auto split: prod.splits)
  next
    case (Some e)
    with st a show ?thesis by simp
  qed
qed

lemma loop_02_drawdown:
  "drawdown_in_range s \<Longrightarrow> \<forall>i \<in> set is. 0 < series ! i \<Longrightarrow>
     successively drawdown_step (s # fst (loop_02 series buys is s))
     \<and> list_all drawdown_in_range (fst (loop_02 series buys is s))"
proof (induction "is" arbitrary: s)
  case Nil
  show ?case by simp
next
  case (Cons i "is")
  obtain s' r where st: "step_02 series buys i s = (s', r)" by force
  from Cons.prems have "0 < series ! i" by simp
  with step_02_drawdown [OF Cons.prems(1), of series i buys] st
  have a: "drawdown_step s s'" "drawdown_in_range s'" by simp_all
  from Cons.prems have rest: "\<forall>i \<in> set is. 0 < series ! i" by simp
  show ?case
  proof (cases r)
    case None
    with st a Cons.IH [OF a(2) rest] show ?thesis
      by (auto split: prod.splits)
  next
    case (Some e)
    with st a show ?thesis by simp
  qed
qed

lemma positive_positions:
  assumes "list_all (\<lambda>p. 0 < p) (xs :: real list)"
  shows "\<forall>i \<in> set (rev [0..<length xs - 1]). 0 < xs ! i"
  using assms by (auto simp: list_all_length)

lemma alg_01_walk:
  "walk_invariant (last stock_series)
     (fst (alg_01_run stock_series bond_series sv bv decr sell addn))"
proof -
  define st0 where "st0 = \<lparr>max_price = stock_series ! (length stock_series - 1),
                     min_price = stock_series ! (length stock_series - 1),
                     current_decrease = 0,
                     stock_val = sv,
                     bond_val = bv,
                     decr_perc = map (\<lambda>x. x / 100) decr,
                     sell_perc = map (\<lambda>x. x / 100) sell\<rparr>"
  have o: "extrema_ordered st0" by (simp add: st0_def extrema_ordered_def)
  have l: "stock_series \<noteq> [] \<Longrightarrow> max_price st0 = last stock_series \<and> min_price st0 = last stock_series"
    by (simp add: st0_def last_conv_nth)
  have tr: "fst (alg_01_run stock_series bond_series sv bv decr sell addn) =
      (if valid_perc decr \<and> valid_perc sell \<and> length decr = length sell \<and> length stock_series = length bond_series \<and> stock_series \<noteq> []
       then st0 # fst (loop_01 stock_series bond_series addn (rev [0..<length stock_series - 1]) st0) else [])"
    by (simp add: alg_01_run_def Let_def st0_def split: prod.splits option.splits)
  from loop_01_extrema [OF o, of stock_series bond_series addn "rev [0..<length stock_series - 1]"] o l
  show ?thesis
    unfolding tr by (auto simp: walk_invariant_def)
qed

lemma alg_01_drawdown:
  assumes "list_all (\<lambda>p. 0 < p) stock_series"
  shows "drawdown_invariant (fst (alg_01_run stock_series bond_series sv bv decr sell addn))"
proof -
  define st0 where "st0 = \<lparr>max_price = stock_series ! (length stock_series - 1),
                     min_price = stock_series ! (length stock_series - 1),
                     current_decrease = 0,
                     stock_val = sv,
                     bond_val = bv,
                     decr_perc = map (\<lambda>x. x / 100) decr,
                     sell_perc = map (\<lambda>x. x / 100) sell\<rparr>"
  have o: "drawdown_in_range st0" if "stock_series \<noteq> []"
    using that assms by (simp add: st0_def drawdown_in_range_def list_all_length)
  have tr: "fst (alg_01_run stock_series bond_series sv bv decr sell addn) =
      (if valid_perc decr \<and> valid_perc sell \<and> length decr = length sell \<and> length stock_series = length bond_series \<and> stock_series \<noteq> []
       then st0 # fst (loop_01 stock_series bond_series addn (rev [0..<length stock_series - 1]) st0) else [])"
    by (simp add: alg_01_run_def Let_def st0_def split: prod.splits option.splits)
  from loop_01_drawdown [OF o positive_positions [OF assms], of bond_series addn] o
  show ?thesis
    unfolding tr by (auto simp: drawdown_invariant_def)
qed

lemma alg_02_walk:
  "walk_invariant (last series)
     (fst (alg_02_run series rate margin0 decs buys incs sells))"
proof -
  define st0 where "st0 = \<lparr>max_price = series ! (length series - 1),
                     min_price = series ! (length series - 1),
                     current_decrease = 0,
                     current_increase = 0,
                     m_stock_val = 0,
                     margin = margin0,
                     decrease_percentages = decs,
                     increase_percentages = incs\<rparr>"
  have o: "extrema_ordered st0" by (simp add: st0_def extrema_ordered_def)
  have l: "series \<noteq> [] \<Longrightarrow> max_price st0 = last series \<and> min_price st0 = last series"
    by (simp add: st0_def last_conv_nth)
  have tr: "fst (alg_02_run series rate margin0 decs buys incs sells) =
      (if valid_perc decs \<and> valid_perc buys \<and> valid_perc incs \<and> valid_perc sells \<and> series \<noteq> []
       then st0 # fst (loop_02 series buys (rev [0..<length series - 1]) st0) else [])"
    by (simp add: alg_02_run_def Let_def st0_def split: prod.splits option.splits)
  from loop_02_extrema [OF o, of series buys "rev [0..<length series - 1]"] o l
  show ?thesis
    unfolding tr by (auto simp: walk_invariant_def)
qed

lemma alg_02_drawdown:
  assumes "list_all (\<lambda>p. 0 < p) series"
  shows "drawdown_invariant (fst (alg_02_run series rate margin0 decs buys incs sells))"
proof -
  define st0 where "st0 = \<lparr>max_price = series ! (length series - 1),
                     min_price = series ! (length series - 1),
                     current_decrease = 0,
                     current_increase = 0,
                     m_stock_val = 0,
                     margin = margin0,
                     decrease_percentages = decs,
                     increase_percentages = incs\<rparr>"
  have o: "drawdown_in_range st0" if "series \<noteq> []"
    using that assms by (simp add: st0_def drawdown_in_range_def list_all_length)
  have tr: "fst (alg_02_run series rate margin0 decs buys incs sells) =
      (if valid_perc decs \<and> valid_perc buys \<and> valid_perc incs \<and> valid_perc sells \<and> series \<noteq> []
       then st0 # fst (loop_02 series buys (rev [0..<length series - 1]) st0) else [])"
    by (simp add: alg_02_run_def Let_def st0_def split: prod.splits option.splits)
  from loop_02_drawdown [OF o positive_positions [OF assms], of buys] o
  show ?thesis
    unfolding tr by (auto simp: drawdown_invariant_def)
qed

subsection \<open>Rounding to double precision\<close>

text \<open>
  Rounding is monotone on the non-negative numbers and keeps 0 and 1, so it maps the
  unit interval into itself; integers below 2 to the power 53 are doubles.
\<close>

lemma round_even_lower: "\<lfloor>r\<rfloor> \<le> round_even r"
  by (simp add: round_even_def Let_def)

lemma round_even_upper: "round_even r \<le> \<lceil>r\<rceil>"
  unfolding round_even_def Let_def
  by (auto simp: ceiling_altdef) 

lemma round_even_int: "round_even (of_int n) = n"
  by (simp add: round_even_def)

lemma round_even_mono:
  assumes "r \<le> s"
  shows "round_even r \<le> round_even s"
proof (cases "\<lfloor>r\<rfloor> = \<lfloor>s\<rfloor>")
  case True
  with assms show ?thesis
    by (auto simp: round_even_def Let_def)
next
  case False
  with assms have "\<lfloor>r\<rfloor> < \<lfloor>s\<rfloor>" by (simp add: floor_mono less_le)
  moreover have "round_even r \<le> \<lfloor>r\<rfloor> + 1"
    by (simp add: round_even_def Let_def)
  ultimately show ?thesis
    using round_even_lower [of s] by linarith
qed


lemma two_powr_diff: "2 powr of_int a / 2 powr of_int b = (2::real) powr of_int (a - b)"
  by (simp add: powr_diff)

lemma two_powr_add: "2 powr of_int a * 2 powr of_int b = (2::real) powr of_int (a + b)"
  by (simp add: powr_add)

lemma two_powr_52: "(2::real) powr of_int 52 = of_int (2 ^ 52)"
  by (simp add: powr_int)

lemma two_powr_53: "(2::real) powr of_int 53 = of_int (2 ^ 53)"
  by (simp add: powr_int)

lemma two_powr_mono: "a \<le> b \<Longrightarrow> (2::real) powr of_int a \<le> 2 powr of_int b"
  by simp

lemma below_next_binade:
  assumes "0 < x"
  shows "x < 2 powr of_int (binade x + 1)"
proof -
  have "x < 2 powr of_int (\<lfloor>log 2 x\<rfloor> + 1)"
    using floor_log_eq_powr_iff [of x 2 "\<lfloor>log 2 x\<rfloor>"] assms by simp
  also have "\<dots> \<le> 2 powr of_int (binade x + 1)"
    using assms by (intro two_powr_mono) (simp add: binade_def)
  finally show ?thesis .
qed

lemma above_binade:
  assumes "0 < x" "- 1022 < binade x"
  shows "2 powr of_int (binade x) \<le> x"
proof -
  from assms have "binade x = \<lfloor>log 2 x\<rfloor>" by (simp add: binade_def max_def split: if_splits)
  then show ?thesis
    using floor_log_eq_powr_iff [of x 2 "\<lfloor>log 2 x\<rfloor>"] assms by simp
qed

lemma binade_mono:
  assumes "0 < x" "x \<le> y"
  shows "binade x \<le> binade y"
proof -
  from assms have "log 2 x \<le> log 2 y" by simp
  then have "\<lfloor>log 2 x\<rfloor> \<le> \<lfloor>log 2 y\<rfloor>" by (rule floor_mono)
  with assms show ?thesis by (simp add: binade_def)
qed

lemma fl_pos_eq:
  assumes "0 < x"
  shows "fl x = of_int (round_even (x / 2 powr of_int (binade x - 52)))
                  * 2 powr of_int (binade x - 52)"
  using assms by (simp add: fl_def)

lemma fl_upper:
  assumes "0 < x"
  shows "fl x \<le> 2 powr of_int (binade x + 1)"
proof -
  let ?u = "2 powr of_int (binade x - 52) :: real"
  have u: "0 < ?u" by simp
  have "x / ?u \<le> 2 powr of_int (binade x + 1) / ?u"
    using below_next_binade [OF assms] u by (simp add: divide_right_mono)
  also have "\<dots> = of_int (2 ^ 53)"
    by (simp only: two_powr_diff) (simp add: two_powr_53 [symmetric])
  finally have "\<lceil>x / ?u\<rceil> \<le> 2 ^ 53" by (simp add: ceiling_le_iff)
  with round_even_upper [of "x / ?u"] have "round_even (x / ?u) \<le> 2 ^ 53" by linarith
  then have "of_int (round_even (x / ?u)) * ?u \<le> of_int (2 ^ 53) * ?u"
    using u by (intro mult_right_mono) (simp_all add: of_int_le_iff [symmetric] del: of_int_le_iff)
  also have "\<dots> = 2 powr of_int (binade x + 1)"
    by (simp only: two_powr_53 [symmetric] two_powr_add) (simp add: add.commute)
  finally show ?thesis by (simp add: fl_pos_eq [OF assms])
qed

lemma fl_lower:
  assumes "0 < x" "- 1022 < binade x"
  shows "2 powr of_int (binade x) \<le> fl x"
proof -
  let ?u = "2 powr of_int (binade x - 52) :: real"
  have u: "0 < ?u" by simp
  have "of_int (2 ^ 52) = 2 powr of_int (binade x) / ?u"
    by (simp only: two_powr_diff) (simp add: two_powr_52 [symmetric])
  also have "\<dots> \<le> x / ?u"
    using above_binade [OF assms] u by (simp add: divide_right_mono)
  finally have "2 ^ 52 \<le> \<lfloor>x / ?u\<rfloor>" by (simp add: le_floor_iff)
  with round_even_lower [of "x / ?u"] have "2 ^ 52 \<le> round_even (x / ?u)" by linarith
  then have le: "of_int (2 ^ 52) * ?u \<le> of_int (round_even (x / ?u)) * ?u"
    using u by (intro mult_right_mono) (simp_all add: of_int_le_iff [symmetric] del: of_int_le_iff)
  have "2 powr of_int (binade x) = of_int (2 ^ 52) * ?u"
    by (simp only: two_powr_52 [symmetric] two_powr_add) simp
  also note le
  finally show ?thesis by (simp add: fl_pos_eq [OF assms(1)])
qed

lemma fl_nonneg:
  assumes "0 \<le> x"
  shows "0 \<le> fl x"
proof (cases "x = 0")
  case True
  then show ?thesis by (simp add: fl_def)
next
  case False
  with assms have pos: "0 < x" by simp
  let ?u = "2 powr of_int (binade x - 52) :: real"
  have "0 \<le> x / ?u" using pos by simp
  then have "0 \<le> \<lfloor>x / ?u\<rfloor>" by simp
  with round_even_lower [of "x / ?u"] have "0 \<le> round_even (x / ?u)" by linarith
  then show ?thesis by (simp add: fl_pos_eq [OF pos])
qed

lemma fl_mono:
  assumes "0 \<le> x" "x \<le> y"
  shows "fl x \<le> fl y"
proof (cases "x = 0")
  case True
  with assms fl_nonneg [of y] show ?thesis by (simp add: fl_def)
next
  case False
  with assms have pos: "0 < x" "0 < y" by simp_all
  show ?thesis
  proof (cases "binade x = binade y")
    case True
    let ?u = "2 powr of_int (binade y - 52) :: real"
    have "x / ?u \<le> y / ?u" using assms by (simp add: divide_right_mono)
    then have "round_even (x / ?u) \<le> round_even (y / ?u)" by (rule round_even_mono)
    then have "of_int (round_even (x / ?u)) * ?u \<le> of_int (round_even (y / ?u)) * ?u"
      by (intro mult_right_mono) simp_all
    then show ?thesis by (simp add: fl_pos_eq pos True)
  next
    case False
    with binade_mono [OF pos(1) assms(2)] have lt: "binade x < binade y" by simp
    have "- 1022 \<le> binade x" by (simp add: binade_def)
    with lt have "- 1022 < binade y" by simp
    from fl_lower [OF pos(2) this] have "2 powr of_int (binade y) \<le> fl y" .
    moreover have "(2::real) powr of_int (binade x + 1) \<le> 2 powr of_int (binade y)"
      using lt by (intro two_powr_mono) simp
    ultimately show ?thesis using fl_upper [OF pos(1)] by linarith
  qed
qed

lemma fl_eval:
  assumes "0 < x" "2 powr of_int k \<le> x" "x < 2 powr of_int (k + 1)" "- 1022 \<le> k"
  shows "fl x = of_int (round_even (x / 2 powr of_int (k - 52))) * 2 powr of_int (k - 52)"
proof -
  have "\<lfloor>log 2 x\<rfloor> = k"
    using floor_log_eq_powr_iff [of x 2 k] assms by simp
  with assms have "binade x = k" by (simp add: binade_def)
  with fl_pos_eq [OF assms(1)] show ?thesis by simp
qed

lemma fl_one: "fl 1 = 1"
proof -
  have "fl 1 = of_int (round_even (1 / 2 powr of_int (0 - 52))) * 2 powr of_int (0 - 52)"
    by (rule fl_eval) simp_all
  also have "1 / 2 powr of_int (0 - 52) = (of_int (2 ^ 52) :: real)"
    by (simp add: powr_minus field_simps)
  finally show ?thesis by (simp only: round_even_int) (simp add: powr_minus field_simps)
qed

lemma fl_unit_interval:
  assumes "0 \<le> x" "x \<le> 1"
  shows "0 \<le> fl x" "fl x \<le> 1"
  using fl_nonneg [OF assms(1)] fl_mono [OF assms] by (simp_all add: fl_one)

lemma double_drawdown_01_bounds:
  assumes "0 < mn" "mn \<le> mx"
  shows "0 \<le> double_drawdown_01 mx mn" "double_drawdown_01 mx mn \<le> 1"
proof -
  from assms have q: "0 \<le> mn / mx" "mn / mx \<le> 1" by simp_all
  from fl_unit_interval [OF q] have "0 \<le> 1 - fl (mn / mx)" "1 - fl (mn / mx) \<le> 1"
    by simp_all
  from fl_unit_interval [OF this]
  show "0 \<le> double_drawdown_01 mx mn" "double_drawdown_01 mx mn \<le> 1"
    by (simp_all add: double_drawdown_01_def)
qed

lemma double_drawdown_02_bounds:
  assumes "0 < mn" "mn \<le> mx" "is_double mx"
  shows "0 \<le> double_drawdown_02 mx mn" "double_drawdown_02 mx mn \<le> 1"
proof -
  from assms have d: "0 \<le> mx - mn" "mx - mn \<le> mx" by simp_all
  from fl_nonneg [OF d(1)] fl_mono [OF d] assms(3)
  have "0 \<le> fl (mx - mn)" "fl (mx - mn) \<le> mx" by (simp_all add: is_double_def)
  with assms have "0 \<le> fl (mx - mn) / mx" "fl (mx - mn) / mx \<le> 1" by simp_all
  from fl_unit_interval [OF this]
  show "0 \<le> double_drawdown_02 mx mn" "double_drawdown_02 mx mn \<le> 1"
    by (simp_all add: double_drawdown_02_def)
qed

lemma is_double_int:
  assumes "0 < n" "n < 2 ^ 53"
  shows "is_double (of_int n)"
proof -
  let ?x = "of_int n :: real"
  define k where "k = \<lfloor>log 2 ?x\<rfloor>"
  have pos: "0 < ?x" using assms by simp
  have b: "2 powr of_int k \<le> ?x" "?x < 2 powr of_int (k + 1)"
    using floor_log_eq_powr_iff [of ?x 2 k] pos by (simp_all add: k_def)
  have "1 \<le> ?x" using assms by simp
  then have "0 \<le> log 2 ?x" by simp
  then have k0: "0 \<le> k" by (simp add: k_def)
  have "?x < 2 powr 53" using assms by (simp add: of_int_less_iff [symmetric] del: of_int_less_iff)
  then have "log 2 ?x < 53" using pos by (simp add: log_less_iff)
  then have k52: "k \<le> 52" by (simp add: k_def floor_le_iff)
  define m where "m = nat (52 - k)"
  have u: "2 powr of_int (k - 52) = 1 / (2::real) ^ m"
  proof (cases "k = 52")
    case True
    then show ?thesis by (simp add: m_def)
  next
    case False
    with k52 have "k - 52 < 0" by simp
    with powr_int [of 2 "k - 52"] show ?thesis by (simp add: m_def)
  qed
  have "fl ?x = of_int (round_even (?x / 2 powr of_int (k - 52))) * 2 powr of_int (k - 52)"
    using pos b k0 by (intro fl_eval) simp_all
  also have "?x / 2 powr of_int (k - 52) = of_int (n * 2 ^ m)"
    by (simp only: u) simp
  also have "of_int (round_even (of_int (n * 2 ^ m))) * 2 powr of_int (k - 52) = ?x"
    by (simp only: round_even_int u) simp
  finally show ?thesis by (simp add: is_double_def)
qed

lemma fl_small: "fl (1 / 2 ^ 70) = 1 / 2 ^ 70"
proof -
  let ?x = "1 / 2 ^ 70 :: real"
  have "fl ?x = of_int (round_even (?x / 2 powr of_int (- 70 - 52))) * 2 powr of_int (- 70 - 52)"
    by (rule fl_eval) (simp_all add: powr_minus field_simps)
  also have "?x / 2 powr of_int (- 70 - 52) = of_int (2 ^ 52)"
    by (simp add: powr_minus field_simps)
  finally show ?thesis
    by (simp only: round_even_int) (simp add: powr_minus field_simps)
qed

lemma fl_just_below_one: "fl (1 - 1 / 2 ^ 70) = 1"
proof -
  let ?x = "1 - 1 / 2 ^ 70 :: real"
  have "fl ?x = of_int (round_even (?x / 2 powr of_int (- 1 - 52))) * 2 powr of_int (- 1 - 52)"
    by (rule fl_eval) (simp_all add: powr_minus field_simps)
  also have "?x / 2 powr of_int (- 1 - 52) = of_int (2 ^ 53 - 1) + (1 - 1 / 2 ^ 17)"
    by (simp add: powr_minus field_simps)
  also have "round_even (of_int (2 ^ 53 - 1) + (1 - 1 / 2 ^ 17)) = 2 ^ 53"
  proof -
    have "\<lfloor>of_int (2 ^ 53 - 1) + (1 - 1 / 2 ^ 17 :: real)\<rfloor> = 2 ^ 53 - 1"
      by (rule floor_unique) simp_all
    then show ?thesis
      unfolding round_even_def Let_def by simp
  qed
  finally show ?thesis by (simp add: powr_minus field_simps)
qed

lemma drawdown_rounds_to_one:
  "double_drawdown_01 1 (1 / 2 ^ 70) = 1" "double_drawdown_02 1 (1 / 2 ^ 70) = 1"
  unfolding double_drawdown_01_def double_drawdown_02_def
  by (simp_all only: div_by_1 fl_small fl_just_below_one fl_one)

subsection \<open>The drawdown as the source computes it\<close>

text \<open>
  In \<^verbatim>\<open>alg_02\<close> the running maximum is always one of the prices, hence a double when the
  prices are. With the extrema positive and ordered, both drawdowns lie between 0 and 1
  in double precision.
\<close>

lemma loop_02_max_double:
  "is_double (max_price s) \<Longrightarrow> \<forall>i \<in> set is. is_double (series ! i) \<Longrightarrow>
     list_all (\<lambda>t. is_double (max_price t)) (fst (loop_02 series buys is s))"
proof (induction "is" arbitrary: s)
  case Nil
  show ?case by simp
next
  case (Cons i "is")
  obtain s' r where st: "step_02 series buys i s = (s', r)" by force
  from Cons.prems have "is_double (series ! i)" by simp
  with Cons.prems(1) step_02_walker(1) [of series buys i s] st
  have a: "is_double (max_price s')" by (simp split: if_splits)
  from Cons.prems have rest: "\<forall>i \<in> set is. is_double (series ! i)" by simp
  show ?case
  proof (cases r)
    case None
    with st a Cons.IH [OF a rest] show ?thesis
      by (auto split: prod.splits)
  next
    case (Some e)
    with st a show ?thesis by simp
  qed
qed

lemma double_positions:
  assumes "list_all is_double (xs :: real list)"
  shows "\<forall>i \<in> set (rev [0..<length xs - 1]). is_double (xs ! i)"
  using assms by (auto simp: list_all_length)

lemma alg_02_max_double:
  assumes "list_all is_double series"
  shows "list_all (\<lambda>t. is_double (max_price t))
           (fst (alg_02_run series rate margin0 decs buys incs sells))"
proof -
  define st0 where "st0 = \<lparr>max_price = series ! (length series - 1),
                     min_price = series ! (length series - 1),
                     current_decrease = 0,
                     current_increase = 0,
                     m_stock_val = 0,
                     margin = margin0,
                     decrease_percentages = decs,
                     increase_percentages = incs\<rparr>"
  have tr: "fst (alg_02_run series rate margin0 decs buys incs sells) =
      (if valid_perc decs \<and> valid_perc buys \<and> valid_perc incs \<and> valid_perc sells \<and> series \<noteq> []
       then st0 # fst (loop_02 series buys (rev [0..<length series - 1]) st0) else [])"
    by (simp add: alg_02_run_def Let_def st0_def split: prod.splits option.splits)
  have o: "is_double (max_price st0)" if "series \<noteq> []"
    using that assms by (simp add: st0_def list_all_length)
  from loop_02_max_double [OF o double_positions [OF assms], of buys] o
  show ?thesis
    unfolding tr by auto
qed

lemma alg_01_double_drawdown:
  assumes "list_all (\<lambda>p. 0 < p) stock_series"
  shows "list_all double_drawdown_in_range_01
           (fst (alg_01_run stock_series bond_series sv bv decr sell addn))"
proof -
  have "double_drawdown_in_range_01 s" if "drawdown_in_range s" for s :: rebalance
    using that double_drawdown_01_bounds [of "min_price s" "max_price s"]
    by (simp add: drawdown_in_range_def double_drawdown_in_range_01_def)
  with alg_01_drawdown [OF assms, of bond_series sv bv decr sell addn]
  show ?thesis
    by (auto simp: drawdown_invariant_def list_all_iff)
qed

lemma alg_02_double_drawdown:
  assumes "list_all (\<lambda>p. 0 < p) series" "list_all is_double series"
  shows "list_all double_drawdown_in_range_02
           (fst (alg_02_run series rate margin0 decs buys incs sells))"
proof -
  have "double_drawdown_in_range_02 s"
    if "drawdown_in_range s" "is_double (max_price s)" for s :: margin_state
    using that double_drawdown_02_bounds [of "min_price s" "max_price s"]
    by (simp add: drawdown_in_range_def double_drawdown_in_range_02_def)
  with alg_02_drawdown [OF assms(1), of rate margin0 decs buys incs sells]
    alg_02_max_double [OF assms(2), of rate margin0 decs buys incs sells]
  show ?thesis
    by (auto simp: drawdown_invariant_def list_all_iff)
qed

text \<open>
  Claim C10, as stated, gives the half-open interval from 0 to 1 for every drawdown of a
  series of strictly positive prices. On the prices 1 and then 2 to the power -70 both
  engines reach the extrema (1, 2 to the power -70), and the drawdown computed there in
  double precision is exactly 1, by either formula: the quotient is kept exactly, and
  1 minus it rounds up to 1.
\<close>

theorem drawdown_reaches_one:
  "map extrema (fst (alg_01_run [1 / 2 ^ 70, 1] [1, 1] 1 1 [] [] 0))
     = [(1, 1), (1, 1 / 2 ^ 70)]
   \<and> double_drawdown_01 1 (1 / 2 ^ 70) = 1
   \<and> map extrema (fst (alg_02_run [1 / 2 ^ 70, 1] 5 1 [] [] [] []))
     = [(1, 1), (1, 1 / 2 ^ 70)]
   \<and> double_drawdown_02 1 (1 / 2 ^ 70) = 1"
proof -
  have "map extrema (fst (alg_01_run [1 / 2 ^ 70, 1] [1, 1] 1 1 [] [] 0))
          = [(1, 1), (1, 1 / 2 ^ 70)]"
    by (simp add: alg_01_run_def valid_perc_def step_01_def fire_01.simps Let_def extrema_def)
  moreover have "map extrema (fst (alg_02_run [1 / 2 ^ 70, 1] 5 1 [] [] [] []))
          = [(1, 1), (1, 1 / 2 ^ 70)]"
    by (simp add: alg_02_run_def valid_perc_def step_02_def fire_02.simps Let_def extrema_def)
  ultimately show ?thesis
    using drawdown_rounds_to_one by simp
qed

text \<open>
  Claim C10, amended. In every traversal of either engine the running maximum and
  minimum start at the first traversed price (the last position of the series), the
  maximum never decreases, the minimum never increases, and the minimum stays below or
  at the maximum. For a series of strictly positive prices (doubles) the maximum is
  positive in every loop state, so no drawdown divides by zero, and the drawdown computed
  in double precision from the extrema of any loop state, as \<open>1 - min / max\<close> in \<^verbatim>\<open>alg_01\<close>
  and as \<open>(max - min) / max\<close> in \<^verbatim>\<open>alg_02\<close>, lies in the closed interval from 0 to 1.
\<close>

theorem extrema_and_double_drawdown:
  "walk_invariant (last stock_series)
     (fst (alg_01_run stock_series bond_series sv bv decr sell addn))
   \<and> walk_invariant (last series)
     (fst (alg_02_run series rate margin0 decs buys incs sells))
   \<and> (list_all (\<lambda>p. 0 < p) stock_series \<longrightarrow>
        list_all double_drawdown_in_range_01
          (fst (alg_01_run stock_series bond_series sv bv decr sell addn)))
   \<and> (list_all (\<lambda>p. 0 < p) series \<and> list_all is_double series \<longrightarrow>
        list_all double_drawdown_in_range_02
          (fst (alg_02_run series rate margin0 decs buys incs sells)))"
  by (intro conjI impI alg_01_walk alg_02_walk alg_01_double_drawdown alg_02_double_drawdown)
     simp_all

theorem extrema_and_double_drawdown_witness:
  "walk_invariant 100
     (fst (alg_01_run [95, 90, 120, 110, 100] [50, 50, 50, 50, 50] 1000 1000 [30] [10] 0))
   \<and> walk_invariant 100 (fst (alg_02_run [95, 90, 120, 110, 100] 5 1000 [9 / 10] [10] [] []))
   \<and> list_all double_drawdown_in_range_01
       (fst (alg_01_run [95, 90, 120, 110, 100] [50, 50, 50, 50, 50] 1000 1000 [30] [10] 0))
   \<and> list_all double_drawdown_in_range_02
       (fst (alg_02_run [95, 90, 120, 110, 100] 5 1000 [9 / 10] [10] [] []))"
  using extrema_and_double_drawdown
      [of "[95, 90, 120, 110, 100]" "[50, 50, 50, 50, 50]" 1000 1000 "[30]" "[10]" 0
          "[95, 90, 120, 110, 100]" 5 1000 "[9 / 10]" "[10]" "[]" "[]"]
    is_double_int [of 95] is_double_int [of 90] is_double_int [of 120]
    is_double_int [of 110] is_double_int [of 100]
  by simp

subsection \<open>Runs in which no price falls below the first traversed price\<close>

text \<open>
  When no traversed price is below the running minimum, the ladder is never read: the
  loop raises nothing and the valuations are those of buy and hold, whatever the ladder
  holds. The call returns when the initial portfolio value is not zero.
\<close>

lemma step_01_no_new_minimum:
  fixes stock_series bond_series monthly_addn i s
  assumes "min_price s \<le> stock_series ! i"
  defines "t \<equiv> fst (step_01 stock_series bond_series monthly_addn i s)"
  shows "snd (step_01 stock_series bond_series monthly_addn i s) = None"
    and "stock_val t = stock_val s * (stock_series ! i / stock_series ! (i + 1))"
    and "bond_val t = bond_val s * (bond_series ! i / bond_series ! (i + 1))
                        + (if i mod 25 = 0 then monthly_addn else 0)"
    and "min_price t = min_price s"
    and "decr_perc t = decr_perc s" and "sell_perc t = sell_perc s"
  using assms(1) unfolding t_def
  by (simp_all add: step_01_def Let_def not_less [symmetric])

lemma loop_01_no_new_minimum:
  fixes stock_series bond_series monthly_addn "is" s
  assumes "\<forall>i \<in> set is. min_price s \<le> stock_series ! i"
  defines "run \<equiv> loop_01 stock_series bond_series monthly_addn is s"
  shows "snd run = None
         \<and> (stock_val (last (s # fst run)), bond_val (last (s # fst run)))
             = hold stock_series bond_series monthly_addn is (stock_val s, bond_val s)
         \<and> decr_perc (last (s # fst run)) = decr_perc s"
  using assms(1) unfolding run_def
proof (induction "is" arbitrary: s)
  case Nil
  show ?case by simp
next
  case (Cons i "is")
  obtain t r where st: "step_01 stock_series bond_series monthly_addn i s = (t, r)" by force
  from Cons.prems have "min_price s \<le> stock_series ! i" by simp
  from step_01_no_new_minimum [OF this, of bond_series monthly_addn] st
  have r: "r = None"
    and t: "stock_val t = stock_val s * (stock_series ! i / stock_series ! (i + 1))"
       "bond_val t = bond_val s * (bond_series ! i / bond_series ! (i + 1))
                        + (if i mod 25 = 0 then monthly_addn else 0)"
       "min_price t = min_price s" "decr_perc t = decr_perc s"
    by simp_all
  from Cons.prems t(3) have "\<forall>i \<in> set is. min_price t \<le> stock_series ! i" by simp
  from Cons.IH [OF this] st r t show ?case
    by (auto split: prod.splits)
qed

lemma alg_01_without_new_minimum:
  fixes stock_series bond_series sv bv decr sell monthly_addn
  assumes "valid_perc decr" "valid_perc sell" "length decr = length sell"
      and "length stock_series = length bond_series" "stock_series \<noteq> []"
      and "\<forall>i < length stock_series - 1. last stock_series \<le> stock_series ! i"
      and "sv + bv \<noteq> 0"
  defines "h \<equiv> hold stock_series bond_series monthly_addn (rev [0..<length stock_series - 1])
                  (sv, bv)"
  shows "alg_01 stock_series bond_series sv bv decr sell monthly_addn
           = Inr ((fst h + snd h) / (sv + bv) - 1)"
    and "bond_val (last (fst (alg_01_run stock_series bond_series sv bv decr sell monthly_addn)))
           = snd h"
proof -
  define st0 where "st0 = \<lparr>max_price = stock_series ! (length stock_series - 1),
                     min_price = stock_series ! (length stock_series - 1),
                     current_decrease = 0,
                     stock_val = sv,
                     bond_val = bv,
                     decr_perc = map (\<lambda>x. x / 100) decr,
                     sell_perc = map (\<lambda>x. x / 100) sell\<rparr>"
  define run where "run = loop_01 stock_series bond_series monthly_addn
                            (rev [0..<length stock_series - 1]) st0"
  have "min_price st0 = last stock_series"
    using assms(5) by (simp add: st0_def last_conv_nth)
  with assms(6) have "\<forall>i \<in> set (rev [0..<length stock_series - 1]). min_price st0 \<le> stock_series ! i"
    by simp
  from loop_01_no_new_minimum [OF this, of bond_series monthly_addn]
  have ok: "snd run = None"
    and fin: "(stock_val (last (st0 # fst run)), bond_val (last (st0 # fst run))) = h"
    by (simp_all add: run_def h_def st0_def)
  have r: "alg_01_run stock_series bond_series sv bv decr sell monthly_addn =
      (st0 # fst run,
       Inr ((stock_val (last (st0 # fst run)) + bond_val (last (st0 # fst run))) / (sv + bv) - 1))"
  proof -
    have e: "loop_01 stock_series bond_series monthly_addn
               (rev [0..<length stock_series - 1]) st0 = (fst run, None)"
      using ok by (simp add: run_def prod_eq_iff)
    show ?thesis
      using assms(1-3,5,7) assms(4) [symmetric] e
      by (simp add: alg_01_run_def Let_def st0_def)
  qed
  from fin have "fst h = stock_val (last (st0 # fst run))" "snd h = bond_val (last (st0 # fst run))"
    by (simp_all add: prod_eq_iff)
  with r show "alg_01 stock_series bond_series sv bv decr sell monthly_addn
           = Inr ((fst h + snd h) / (sv + bv) - 1)"
    and "bond_val (last (fst (alg_01_run stock_series bond_series sv bv decr sell monthly_addn)))
           = snd h"
    by (simp_all add: alg_01_def)
qed

text \<open>
  For positive prices the cumulative ratio telescopes, and without contributions the
  result is the buy-and-hold return of claim C3 (for a portfolio whose initial value is
  not zero). For a series of 50 prices the final bond value holds the initial value
  grown by the cumulative ratio and exactly two contributions: the one added at position
  25, grown by the ratio from there on, and the one added at position 0.
\<close>

lemma growth_telescope:
  assumes "list_all (\<lambda>p. 0 < p) xs" "a \<le> b" "b < length xs"
  shows "growth xs (rev [a..<b]) = xs ! a / xs ! b"
  using assms(2,3)
proof (induction b)
  case 0
  with assms(1) have "0 < xs ! 0" by (simp add: list_all_length)
  with 0 show ?case by (simp add: growth_def)
next
  case (Suc b)
  from assms(1) Suc.prems have pos: "0 < xs ! b" "0 < xs ! Suc b"
    by (simp_all add: list_all_length)
  show ?case
  proof (cases "a = Suc b")
    case True
    with pos show ?thesis by (simp add: growth_def)
  next
    case False
    with Suc.prems have ab: "a \<le> b" "b < length xs" by simp_all
    from Suc.IH [OF ab] ab pos show ?thesis
      by (simp add: growth_def)
  qed
qed

lemma hold_append:
  "hold ss bs addn (is @ js) x = hold ss bs addn js (hold ss bs addn is x)"
proof (induction "is" arbitrary: x)
  case Nil
  show ?case by (cases x) simp
next
  case (Cons i "is")
  then show ?case by (cases x) simp
qed

lemma hold_stock: "fst (hold ss bs addn is (sv, bv)) = sv * growth ss is"
  by (induction "is" arbitrary: sv bv) (simp_all add: growth_def)

lemma hold_bond_plain:
  "addn = 0 \<or> (\<forall>i \<in> set is. i mod 25 \<noteq> 0) \<Longrightarrow>
     snd (hold ss bs addn is (sv, bv)) = bv * growth bs is"
  by (induction "is" arbitrary: sv bv) (auto simp: growth_def)

lemma alg_01_buy_and_hold:
  fixes stock_series bond_series sv bv decr sell
  assumes "valid_perc decr" "valid_perc sell" "length decr = length sell"
      and "length stock_series = length bond_series" "stock_series \<noteq> []"
      and "list_all (\<lambda>p. 0 < p) stock_series" "list_all (\<lambda>p. 0 < p) bond_series"
      and "\<forall>i < length stock_series - 1. last stock_series \<le> stock_series ! i"
      and "sv + bv \<noteq> 0"
  shows "alg_01 stock_series bond_series sv bv decr sell 0
           = Inr ((sv * (stock_series ! 0 / last stock_series)
                   + bv * (bond_series ! 0 / last bond_series)) / (sv + bv) - 1)"
proof -
  let ?is = "rev [0..<length stock_series - 1]"
  have s: "growth stock_series ?is = stock_series ! 0 / last stock_series"
    using growth_telescope [OF assms(6), of 0 "length stock_series - 1"] assms(5)
    by (simp add: last_conv_nth)
  have b: "growth bond_series ?is = bond_series ! 0 / last bond_series"
  proof -
    from assms(4,5) have "bond_series \<noteq> []" by auto
    with growth_telescope [OF assms(7), of 0 "length bond_series - 1"] assms(4)
    show ?thesis by (simp add: last_conv_nth)
  qed
  have "hold stock_series bond_series 0 ?is (sv, bv)
          = (sv * growth stock_series ?is, bv * growth bond_series ?is)"
    using hold_stock [of stock_series bond_series 0 ?is sv bv]
      hold_bond_plain [of 0 ?is stock_series bond_series sv bv]
    by (simp add: prod_eq_iff)
  with alg_01_without_new_minimum(1) [OF assms(1-5) assms(8) assms(9), where monthly_addn = 0] s b
  show ?thesis by simp
qed

lemma scenario_D_positions:
  "rev [0..<49] = rev [26..<49] @ [25] @ rev [1..<25] @ [0::nat]"
  by code_simp

lemma scenario_D_bond:
  assumes "length bs = 50" "list_all (\<lambda>p. 0 < p) bs"
  shows "snd (hold ss bs addn (rev [0..<49]) (sv, bv))
           = bv * (bs ! 0 / bs ! 49) + addn * (bs ! 0 / bs ! 25) + addn"
proof -
  have pos: "0 < bs ! 0" "0 < bs ! 1" "0 < bs ! 25" "0 < bs ! 26" "0 < bs ! 49"
    using assms by (simp_all add: list_all_length)
  have g1: "growth bs (rev [26..<49]) = bs ! 26 / bs ! 49"
    using growth_telescope [OF assms(2), of 26 49] assms(1) by simp
  have g2: "growth bs (rev [1..<25]) = bs ! 1 / bs ! 25"
    using growth_telescope [OF assms(2), of 1 25] assms(1) by simp
  have n1: "\<forall>i \<in> set (rev [26..<49]). i mod 25 \<noteq> 0"
    by code_simp
  have n2: "\<forall>i \<in> set (rev [1..<25]). i mod 25 \<noteq> 0"
    by code_simp
  obtain s1 b1 where h1: "hold ss bs addn (rev [26..<49]) (sv, bv) = (s1, b1)" by force
  with hold_bond_plain [of addn "rev [26..<49]" ss bs sv bv] n1 g1
  have b1: "b1 = bv * (bs ! 26 / bs ! 49)" by simp
  obtain s2 b2 where h2: "hold ss bs addn [25] (s1, b1) = (s2, b2)" by force
  then have b2: "b2 = b1 * (bs ! 25 / bs ! 26) + addn" by simp
  obtain s3 b3 where h3: "hold ss bs addn (rev [1..<25]) (s2, b2) = (s3, b3)" by force
  with hold_bond_plain [of addn "rev [1..<25]" ss bs s2 b2] n2 g2
  have b3: "b3 = b2 * (bs ! 1 / bs ! 25)" by simp
  have "snd (hold ss bs addn (rev [0..<49]) (sv, bv)) = b3 * (bs ! 0 / bs ! 1) + addn"
    unfolding scenario_D_positions hold_append h1 h2 h3 by simp
  also have "\<dots> = bv * (bs ! 0 / bs ! 49) + addn * (bs ! 0 / bs ! 25) + addn"
    unfolding b3 b2 b1 using pos by (simp add: field_simps)
  finally show ?thesis .
qed

lemma scenario_D_without_new_minimum:
  fixes stock_series bond_series sv bv
  assumes "length stock_series = 50" "length bond_series = 50"
      and "list_all (\<lambda>p. 0 < p) bond_series"
      and "\<forall>i < 49. stock_series ! 49 \<le> stock_series ! i"
      and "sv + bv \<noteq> 0"
  shows "bond_val (last (fst (alg_01_run stock_series bond_series sv bv [] [] 100)))
           = bv * (bond_series ! 0 / bond_series ! 49)
             + 100 * (bond_series ! 0 / bond_series ! 25) + 100"
    and "\<exists>x. alg_01 stock_series bond_series sv bv [] [] 100 = Inr x"
proof -
  have ne: "stock_series \<noteq> []" using assms(1) by auto
  have l: "last stock_series = stock_series ! 49"
    using assms(1) ne by (simp add: last_conv_nth)
  have nd: "\<forall>i < length stock_series - 1. last stock_series \<le> stock_series ! i"
    using assms(1,4) l by simp
  have v: "valid_perc []" by (simp add: valid_perc_def)
  have len: "length stock_series = length bond_series" using assms(1,2) by simp
  from alg_01_without_new_minimum [OF v v refl len ne nd assms(5), where monthly_addn = 100]
    scenario_D_bond [OF assms(2,3), of stock_series 100 sv bv] assms(1)
  show "bond_val (last (fst (alg_01_run stock_series bond_series sv bv [] [] 100)))
           = bv * (bond_series ! 0 / bond_series ! 49)
             + 100 * (bond_series ! 0 / bond_series ! 25) + 100"
    and "\<exists>x. alg_01 stock_series bond_series sv bv [] [] 100 = Inr x"
    by simp_all
qed

subsection \<open>The contribution schedule\<close>

lemma rev_upt_49: "rev [0..<49] = [48,47,46,45,44,43,42,41,40,39,38,37,36,35,34,33,32,31,30,29,28,27,26,25,24,23,22,21,20,19,18,17,16,15,14,13,12,11,10,9,8,7,6,5,4,3,2,1,0::nat]"
  by code_simp

text \<open>
  Claim C5. For a series of 50 prices, a contribution of 100 and empty threshold lists,
  the final bond value is claimed to include two contributions, added at the positions
  25 and 0. With the second-oldest stock price at 90 below the oldest at 100, the first
  iteration (position 48) finds a new minimum, reads \<^verbatim>\<open>decr_perc[0]\<close> of the empty list and
  raises \<^verbatim>\<open>IndexError\<close>: the positions 25 and 0 are never visited, the bond value is still
  1000, and nothing is returned.
\<close>

theorem scenario_D_raises:
  "alg_01_run (replicate 48 100 @ [90, 100]) (replicate 50 50) 1000 1000 [] [] 100 =
     ([\<lparr>max_price = 100, min_price = 100, current_decrease = 0,
        stock_val = 1000, bond_val = 1000, decr_perc = [], sell_perc = []\<rparr>,
       \<lparr>max_price = 100, min_price = 90, current_decrease = 1 / 10,
        stock_val = 900, bond_val = 1000, decr_perc = [], sell_perc = []\<rparr>],
      Inl IndexError)"
  by (simp add: alg_01_run_def valid_perc_def step_01_def fire_01.simps Let_def
      rev_upt_49 nth_append)

end
